theory Spec2Isabelle
  imports Main "HOL-Library.Char_ord" "HOL-Library.List_Lexorder" "HOL-Library.Multiset"
    "HOL-Library.Word"
begin

unbundle bit_operations_syntax

section \<open>Blocks, transactions and errors\<close>

text \<open>
  The fields of a transaction and of a block, as the storage schema and the data model
  list them. Hashes, keys and signatures are hex strings; heights, nonces and timestamps
  are non-negative integers.
\<close>

record Transaction =
  tx_hash :: string
  tx_type :: string
  sender :: string
  nonce :: nat
  tx_timestamp :: nat
  payload :: string
  tx_signature :: string

record Block =
  height :: nat
  hash :: string
  previousHash :: string
  timestamp :: nat
  merkleRoot :: string
  stateRoot :: string
  proposer :: string
  signature :: string
  transactions :: "Transaction list"

text \<open>
  What a call throws: an \<open>Error\<close> with its message, or the \<open>ReferenceError\<close> of
  reading an identifier that is bound nowhere.
\<close>

datatype error = Error string | ReferenceError string

section \<open>Raft consensus\<close>

subsection \<open>State\<close>

datatype RaftRole = Follower | Candidate | Leader

record RaftLogEntry =
  "term" :: nat
  index :: nat
  block :: Block

text \<open>
  The consensus messages a node sends. \<open>RequestVote term candidateId lastLogIndex
  lastLogTerm\<close> and \<open>AppendEntries term leaderId prevLogIndex prevLogTerm entries
  leaderCommit\<close> carry the fields of the two RPC tables.
\<close>

datatype RaftMessage =
    RequestVote nat string nat nat
  | AppendEntries nat string nat nat "RaftLogEntry list" nat

text \<open>
  The callback \<open>onBlockCommitted(block)\<close> belongs to the node orchestrator, which
  applies the block inside a database transaction. It has no code in the sources and is a
  parameter: called with a block it changes what it closes over, the orchestrator's
  state, of any type \<open>'h\<close>, and it returns or throws.
\<close>

type_synonym 'h Callback = "Block \<Rightarrow> 'h \<Rightarrow> error option \<times> 'h"

text \<open>
  A \<open>RaftNode\<close>: the persistent, volatile and leader-only fields of the state tables.
  \<open>knownNodeIds\<close> is what \<open>peerManager.getKnownNodeIds()\<close> returns.
  \<open>onBlockCommitted\<close> is the optional callback, \<open>host\<close> the state the callback
  acts on, and \<open>committed\<close> lists the blocks the callback has been called with, oldest
  first. \<open>outbox\<close> lists the messages sent so far with their destination, \<open>events\<close>
  the events emitted, and the two timer flags tell whether each timer is running.
\<close>

record 'h RaftNode =
  nodeId :: string
  currentTerm :: nat
  votedFor :: "string option"
  raftLog :: "RaftLogEntry list"
  role :: RaftRole
  leaderId :: "string option"
  commitIndex :: nat
  lastApplied :: nat
  nextIndex :: "string \<rightharpoonup> nat"
  matchIndex :: "string \<rightharpoonup> nat"
  knownNodeIds :: "string list"
  onBlockCommitted :: "'h Callback option"
  host :: 'h
  committed :: "Block list"
  outbox :: "(string \<times> RaftMessage) list"
  events :: "string list"
  electionTimerOn :: bool
  heartbeatTimerOn :: bool

text \<open>
  What a method leaves: the node, and the error when an exception leaves the method.
\<close>

type_synonym 'h RaftOutcome = "error option \<times> 'h RaftNode"

subsection \<open>The log\<close>

text \<open>
  Modelled from the spec: the class \<open>RaftLog\<close> (\<open>getLastIndex\<close>, \<open>getLastTerm\<close>,
  \<open>getEntry\<close>, and \<open>append\<close>, here \<open>append_entry\<close>) has no code in the sources. The
  data model gives a log entry a 1-based position, so the log is the list of its entries,
  the entry at index \<open>n\<close> is the \<open>n\<close>-th of the list, and an index outside
  \<open>1..length\<close> has no entry (\<open>getEntry\<close> returns \<open>undefined\<close>, here \<open>None\<close>). An
  empty log has last index and last term 0.
\<close>

definition getLastIndex :: "RaftLogEntry list \<Rightarrow> nat" where
  "getLastIndex lg = length lg"

definition getLastTerm :: "RaftLogEntry list \<Rightarrow> nat" where
  "getLastTerm lg = (if lg = [] then 0 else term (last lg))"

definition getEntry :: "RaftLogEntry list \<Rightarrow> nat \<Rightarrow> RaftLogEntry option" where
  "getEntry lg n = (if 1 \<le> n \<and> n \<le> length lg then Some (lg ! (n - 1)) else None)"

definition append_entry :: "RaftLogEntry list \<Rightarrow> RaftLogEntry \<Rightarrow> RaftLogEntry list" where
  "append_entry lg e = lg @ [e]"

subsection \<open>Log comparison\<close>

text \<open>
  \<open>isLogUpToDate(lastLogIndex, lastLogTerm)\<close>: different last terms are decided by the
  term, equal last terms by the index.
\<close>

definition isLogUpToDate :: "'h RaftNode \<Rightarrow> nat \<Rightarrow> nat \<Rightarrow> bool" where
  "isLogUpToDate s lastLogIndex lastLogTerm =
     (let myLastTerm = getLastTerm (raftLog s);
          myLastIndex = getLastIndex (raftLog s)
      in if lastLogTerm \<noteq> myLastTerm then lastLogTerm > myLastTerm
         else lastLogIndex \<ge> myLastIndex)"

subsection \<open>Applying committed entries\<close>

text \<open>
  One turn of the \<open>while\<close> loop of \<open>applyCommitted\<close>: \<open>lastApplied\<close> is incremented,
  the entry at the new \<open>lastApplied\<close> is read, and, when the entry exists and a callback
  is registered, the callback is called with its block. What the callback throws leaves
  the method with \<open>lastApplied\<close> already incremented.
\<close>

definition applyNext :: "'h RaftNode \<Rightarrow> 'h RaftOutcome" where
  "applyNext s =
     (let s1 = s\<lparr>lastApplied := lastApplied s + 1\<rparr>
      in case getEntry (raftLog s1) (lastApplied s1) of
           None \<Rightarrow> (None, s1)
         | Some entry \<Rightarrow>
             (case onBlockCommitted s1 of
                None \<Rightarrow> (None, s1)
              | Some callback \<Rightarrow>
                  (case callback (block entry) (host s1) of
                     (thrown, h) \<Rightarrow>
                       (thrown, s1\<lparr>committed := committed s1 @ [block entry], host := h\<rparr>))))"

lemma applyNext_measure:
  "applyNext s = (thrown, s1) \<Longrightarrow>
   lastApplied s1 = lastApplied s + 1 \<and> commitIndex s1 = commitIndex s"
  by (auto simp: applyNext_def Let_def split: option.splits prod.splits)

text \<open>The loop: it goes on while entries are left to apply and no call has thrown.\<close>

function applyCommitted :: "'h RaftNode \<Rightarrow> 'h RaftOutcome" where
  "applyCommitted s =
     (if lastApplied s < commitIndex s then
        (case applyNext s of
           (None, s1) \<Rightarrow> applyCommitted s1
         | (Some e, s1) \<Rightarrow> (Some e, s1))
      else (None, s))"
  by pat_completeness auto
termination
  by (relation "measure (\<lambda>s. commitIndex s - lastApplied s)") (auto dest!: applyNext_measure [OF sym])

declare applyCommitted.simps [simp del]

subsection \<open>Commit index advancement\<close>

definition allNodeIds :: "'h RaftNode \<Rightarrow> string list" where
  "allNodeIds s = knownNodeIds s @ [nodeId s]"

definition majority :: "'h RaftNode \<Rightarrow> nat" where
  "majority s = length (allNodeIds s) div 2 + 1"

text \<open>
  The match index the inner loop reads for a node: the leader's own last log index for
  the leader itself, the \<open>matchIndex\<close> entry of any other node, 0 when it has none.
\<close>

definition matchOf :: "'h RaftNode \<Rightarrow> string \<Rightarrow> nat" where
  "matchOf s nid =
     (if nid = nodeId s then getLastIndex (raftLog s)
      else (case matchIndex s nid of Some m \<Rightarrow> m | None \<Rightarrow> 0))"

text \<open>The inner loop: \<open>replicatedCount\<close> after the node ids have been visited in order.\<close>

fun countReplicas :: "'h RaftNode \<Rightarrow> nat \<Rightarrow> string list \<Rightarrow> nat \<Rightarrow> nat" where
  "countReplicas s n [] replicatedCount = replicatedCount"
| "countReplicas s n (nid # rest) replicatedCount =
     countReplicas s n rest (if matchOf s nid \<ge> n then replicatedCount + 1 else replicatedCount)"

definition replicatedCount :: "'h RaftNode \<Rightarrow> nat \<Rightarrow> nat" where
  "replicatedCount s n = countReplicas s n (allNodeIds s) 0"

text \<open>
  The outer loop from candidate index \<open>n\<close> downwards: an index with no entry or with an
  entry of another term is skipped; the first index whose count reaches the majority
  becomes the commit index, the committed entries are applied, and the scan ends.
\<close>

function scanCommit :: "'h RaftNode \<Rightarrow> nat \<Rightarrow> 'h RaftOutcome" where
  "scanCommit s n =
     (if n > commitIndex s then
        (case getEntry (raftLog s) n of
           None \<Rightarrow> scanCommit s (n - 1)
         | Some entry \<Rightarrow>
             if term entry \<noteq> currentTerm s then scanCommit s (n - 1)
             else if replicatedCount s n \<ge> majority s
               then applyCommitted (s\<lparr>commitIndex := n\<rparr>)
               else scanCommit s (n - 1))
      else (None, s))"
  by pat_completeness auto
termination
  by (relation "measure (\<lambda>(s, n). n)") auto

declare scanCommit.simps [simp del]

definition advanceCommitIndex :: "'h RaftNode \<Rightarrow> 'h RaftOutcome" where
  "advanceCommitIndex s =
     (if role s \<noteq> Leader then (None, s) else scanCommit s (getLastIndex (raftLog s)))"

text \<open>
  The condition under which the scan stops at index \<open>n\<close>, in the words of the commit
  rule: the entry at \<open>n\<close> exists and carries the leader's current term, and the nodes of
  the voter list (the known nodes and the leader) whose match index is at least \<open>n\<close>
  number at least \<open>floor(N/2) + 1\<close>, \<open>N\<close> the length of the voter list.
\<close>

definition commitCandidate :: "'h RaftNode \<Rightarrow> nat \<Rightarrow> bool" where
  "commitCandidate s n \<longleftrightarrow>
     (case getEntry (raftLog s) n of None \<Rightarrow> False | Some entry \<Rightarrow> term entry = currentTerm s) \<and>
     length (filter (\<lambda>nid. matchOf s nid \<ge> n) (allNodeIds s)) \<ge> length (allNodeIds s) div 2 + 1"

text \<open>
  The blocks of the entries the log holds at the indices \<open>a + 1 .. c\<close>, in increasing
  index order.
\<close>

definition appliedBlocks :: "RaftLogEntry list \<Rightarrow> nat \<Rightarrow> nat \<Rightarrow> Block list" where
  "appliedBlocks lg a c = map block (List.map_filter (getEntry lg) [a + 1 ..< c + 1])"

text \<open>
  A callback called with the blocks of a list one after the other, up to the first call
  that throws: what is thrown, if anything, and the state the calls leave.
\<close>

fun runAll :: "'h Callback \<Rightarrow> Block list \<Rightarrow> 'h \<Rightarrow> error option \<times> 'h" where
  "runAll callback [] h = (None, h)"
| "runAll callback (b # bs) h =
     (case callback b h of
        (None, h1) \<Rightarrow> runAll callback bs h1
      | (Some e, h1) \<Rightarrow> (Some e, h1))"

subsection \<open>Step down, votes and elections\<close>

definition stepDown :: "'h RaftNode \<Rightarrow> nat \<Rightarrow> 'h RaftNode" where
  "stepDown s newTerm =
     s\<lparr>currentTerm := newTerm, role := Follower, votedFor := None,
       heartbeatTimerOn := False, electionTimerOn := True\<rparr>"

text \<open>
  Modelled from the spec: the handler of a vote request has no code in the sources. The
  vote-granting rule, as "Vote Granting Logic" and the specification give it: a request
  with a higher term makes the node step down (\<open>stepDown\<close>, from the source) first; the
  vote is granted when the request's term equals the node's current term, the node has
  not voted in this term or has voted for this candidate, and the candidate's log is at
  least as up to date. Granting records the vote and resets the election timer. The
  result is the new state and the \<open>voteGranted\<close> flag of the reply.
\<close>

definition handleRequestVote :: "'h RaftNode \<Rightarrow> nat \<Rightarrow> string \<Rightarrow> nat \<Rightarrow> nat \<Rightarrow> 'h RaftNode \<times> bool" where
  "handleRequestVote s reqTerm candidateId lastLogIndex lastLogTerm =
     (let s1 = (if reqTerm > currentTerm s then stepDown s reqTerm else s);
          voteGranted = (reqTerm = currentTerm s1 \<and>
                         (votedFor s1 = None \<or> votedFor s1 = Some candidateId) \<and>
                         isLogUpToDate s1 lastLogIndex lastLogTerm)
      in if voteGranted
         then (s1\<lparr>votedFor := Some candidateId, electionTimerOn := True\<rparr>, True)
         else (s1, False))"

text \<open>
  Modelled from the spec: \<open>sendHeartbeats\<close> has no code in the sources. One
  \<open>AppendEntries\<close> goes to every known node, with the fields of the RPC table: the
  entry before the peer's next index, the entries from the next index on, and the
  leader's commit index.
\<close>

definition heartbeatFor :: "'h RaftNode \<Rightarrow> string \<Rightarrow> RaftMessage" where
  "heartbeatFor s peer =
     (let next = (case nextIndex s peer of Some i \<Rightarrow> i | None \<Rightarrow> getLastIndex (raftLog s) + 1);
          prevLogIndex = next - 1;
          prevLogTerm = (case getEntry (raftLog s) prevLogIndex of Some e \<Rightarrow> term e | None \<Rightarrow> 0)
      in AppendEntries (currentTerm s) (nodeId s) prevLogIndex prevLogTerm
           (drop prevLogIndex (raftLog s)) (commitIndex s))"

definition sendHeartbeats :: "'h RaftNode \<Rightarrow> 'h RaftNode" where
  "sendHeartbeats s = s\<lparr>outbox := outbox s @ map (\<lambda>peer. (peer, heartbeatFor s peer)) (knownNodeIds s)\<rparr>"

text \<open>
  Modelled from the spec: \<open>becomeLeader\<close> has no code in the sources. The six steps of
  "Becoming Leader": role and leader id, the timers, \<open>nextIndex\<close> of every peer set to the
  last log index plus one and \<open>matchIndex\<close> to 0, an immediate heartbeat to all peers, and
  the \<open>leader\<close> event.
\<close>

definition becomeLeader :: "'h RaftNode \<Rightarrow> 'h RaftNode" where
  "becomeLeader s =
     (let s1 = s\<lparr>role := Leader, leaderId := Some (nodeId s),
                 electionTimerOn := False, heartbeatTimerOn := True\<rparr>;
          s2 = s1\<lparr>nextIndex := foldl (\<lambda>m peer. m(peer \<mapsto> getLastIndex (raftLog s1) + 1))
                                 (nextIndex s1) (knownNodeIds s1),
                  matchIndex := foldl (\<lambda>m peer. m(peer \<mapsto> 0)) (matchIndex s1) (knownNodeIds s1)\<rparr>;
          s3 = sendHeartbeats s2
      in s3\<lparr>events := events s3 @ [''leader'']\<rparr>)"

text \<open>
  Modelled from the spec: of \<open>startElection\<close> the sources show the single-voter branch
  only (\<open>if (totalVoters === 1) { this.becomeLeader(); return; }\<close>). The rest follows
  the election steps: the term is incremented, the node becomes a candidate and votes for
  itself, and a vote request with the term, the candidate id and the last log index and
  term goes to every known node. \<open>totalVoters\<close> counts the known nodes and the node
  itself, as the voter list of \<open>advanceCommitIndex\<close> does.
\<close>

definition startElection :: "'h RaftNode \<Rightarrow> 'h RaftNode" where
  "startElection s =
     (let s1 = s\<lparr>currentTerm := currentTerm s + 1, role := Candidate,
                 votedFor := Some (nodeId s), electionTimerOn := True\<rparr>;
          totalVoters = length (allNodeIds s1)
      in if totalVoters = 1 then becomeLeader s1
         else s1\<lparr>outbox := outbox s1 @
                  map (\<lambda>peer. (peer, RequestVote (currentTerm s1) (nodeId s1)
                                       (getLastIndex (raftLog s1)) (getLastTerm (raftLog s1))))
                      (knownNodeIds s1)\<rparr>)"

subsection \<open>Block proposal\<close>

definition proposeBlock :: "Block \<Rightarrow> 'h RaftNode \<Rightarrow> 'h RaftOutcome" where
  "proposeBlock b s =
     (if role s \<noteq> Leader then (None, s)
      else
        let entry = \<lparr>term = currentTerm s, index = getLastIndex (raftLog s) + 1, block = b\<rparr>;
            s1 = s\<lparr>raftLog := append_entry (raftLog s) entry\<rparr>;
            s2 = s1\<lparr>matchIndex := (matchIndex s1)(nodeId s1 \<mapsto> index entry)\<rparr>;
            s3 = sendHeartbeats s2
        in advanceCommitIndex s3)"

subsection \<open>Sample states\<close>

definition sampleBlock :: "nat \<Rightarrow> Block" where
  "sampleBlock h =
     \<lparr>height = h, hash = ''h'', previousHash = ''p'', timestamp = 0, merkleRoot = ''m'',
      stateRoot = ''s'', proposer = ''n1'', signature = ''sig'', transactions = []\<rparr>"

text \<open>
  A sample callback: its state is the height of the chain it keeps; it accepts the block
  of the next height and throws on any other.
\<close>

definition sampleCallback :: "nat Callback" where
  "sampleCallback b h =
     (if height b = h + 1 then (None, h + 1) else (Some (Error ''height mismatch''), h))"

text \<open>
  A leader of term 2 in a cluster of three, with three entries of terms 1, 2, 2, none
  committed; \<open>n2\<close> has acknowledged two entries and \<open>n3\<close> one. Its callback is the
  sample callback on an empty chain.
\<close>

definition leader3 :: "nat RaftNode" where
  "leader3 =
     \<lparr>nodeId = ''n1'', currentTerm = 2, votedFor = Some ''n1'',
      raftLog = [\<lparr>term = 1, index = 1, block = sampleBlock 1\<rparr>,
                 \<lparr>term = 2, index = 2, block = sampleBlock 2\<rparr>,
                 \<lparr>term = 2, index = 3, block = sampleBlock 3\<rparr>],
      role = Leader, leaderId = Some ''n1'', commitIndex = 0, lastApplied = 0,
      nextIndex = [''n2'' \<mapsto> 3, ''n3'' \<mapsto> 2], matchIndex = [''n2'' \<mapsto> 2, ''n3'' \<mapsto> 1],
      knownNodeIds = [''n2'', ''n3''], onBlockCommitted = Some sampleCallback, host = 0,
      committed = [], outbox = [], events = [], electionTimerOn = False,
      heartbeatTimerOn = True\<rparr>"

text \<open>A follower of term 1 that is the only node of its cluster, with an empty log.\<close>

definition solo1 :: "nat RaftNode" where
  "solo1 =
     \<lparr>nodeId = ''n1'', currentTerm = 1, votedFor = None, raftLog = [],
      role = Follower, leaderId = None, commitIndex = 0, lastApplied = 0,
      nextIndex = Map.empty, matchIndex = Map.empty,
      knownNodeIds = [], onBlockCommitted = Some sampleCallback, host = 0, committed = [],
      outbox = [], events = [], electionTimerOn = True, heartbeatTimerOn = False\<rparr>"

subsection \<open>Properties of applying committed entries\<close>

lemma appliedBlocks_empty: "c \<le> a \<Longrightarrow> appliedBlocks lg a c = []"
  by (simp add: appliedBlocks_def List.map_filter_simps)

lemma appliedBlocks_one:
  "appliedBlocks lg a (a + 1) =
     (case getEntry lg (a + 1) of None \<Rightarrow> [] | Some entry \<Rightarrow> [block entry])"
  by (simp add: appliedBlocks_def List.map_filter_simps split: option.split)

lemma appliedBlocks_split:
  assumes "a \<le> b" and "b \<le> c"
  shows "appliedBlocks lg a c = appliedBlocks lg a b @ appliedBlocks lg b c"
proof -
  from assms(2) obtain k where k: "c + 1 = (b + 1) + k"
    using le_Suc_ex by fastforce
  have "[a + 1 ..< (b + 1) + k] = [a + 1 ..< b + 1] @ [b + 1 ..< (b + 1) + k]"
    using assms(1) by (intro upt_add_eq_append) simp
  with k show ?thesis
    by (simp add: appliedBlocks_def List.map_filter_def)
qed

lemma applyNext_eq:
  "applyNext s =
     (case getEntry (raftLog s) (lastApplied s + 1) of
        None \<Rightarrow> (None, s\<lparr>lastApplied := lastApplied s + 1\<rparr>)
      | Some entry \<Rightarrow>
          (case onBlockCommitted s of
             None \<Rightarrow> (None, s\<lparr>lastApplied := lastApplied s + 1\<rparr>)
           | Some callback \<Rightarrow>
               (fst (callback (block entry) (host s)),
                s\<lparr>lastApplied := lastApplied s + 1,
                  committed := committed s @ [block entry],
                  host := snd (callback (block entry) (host s))\<rparr>)))"
  by (simp add: applyNext_def Let_def split: option.split prod.split)

lemma applyCommitted_char:
  "\<exists>thrown la h.
     applyCommitted s =
       (thrown,
        s\<lparr>lastApplied := la,
          committed := committed s @
            (if onBlockCommitted s = None then []
             else appliedBlocks (raftLog s) (lastApplied s) la),
          host := h\<rparr>) \<and>
     (thrown = None \<longrightarrow> la = max (lastApplied s) (commitIndex s)) \<and>
     (thrown \<noteq> None \<longrightarrow>
        lastApplied s < la \<and> la \<le> commitIndex s \<and> getEntry (raftLog s) la \<noteq> None) \<and>
     (case onBlockCommitted s of
        None \<Rightarrow> thrown = None \<and> h = host s
      | Some callback \<Rightarrow>
          (thrown, h) =
            runAll callback (appliedBlocks (raftLog s) (lastApplied s) (commitIndex s)) (host s))"
proof (induction s rule: applyCommitted.induct)
  case (1 s)
  show ?case
  proof (cases "lastApplied s < commitIndex s")
    case False
    then have "applyCommitted s = (None, s)"
      by (subst applyCommitted.simps) simp
    moreover have "appliedBlocks (raftLog s) (lastApplied s) (lastApplied s) = []"
      "appliedBlocks (raftLog s) (lastApplied s) (commitIndex s) = []"
      using False by (simp_all add: appliedBlocks_empty)
    ultimately show ?thesis
      using False
      by (intro exI [of _ None] exI [of _ "lastApplied s"] exI [of _ "host s"])
        (auto simp: max_def split: option.split)
  next
    case True
    obtain t s1 where n: "applyNext s = (t, s1)"
      by (cases "applyNext s")
    have step: "appliedBlocks (raftLog s) (lastApplied s) k =
                appliedBlocks (raftLog s) (lastApplied s) (lastApplied s + 1) @
                appliedBlocks (raftLog s) (lastApplied s + 1) k" if "lastApplied s + 1 \<le> k" for k
      using that by (intro appliedBlocks_split) simp_all
    show ?thesis
    proof (cases t)
      case (Some e)
      with n True have ac: "applyCommitted s = (Some e, s1)"
        by (subst applyCommitted.simps) simp
      from n Some obtain entry callback where
        g: "getEntry (raftLog s) (lastApplied s + 1) = Some entry" and
        cb: "onBlockCommitted s = Some callback" and
        th: "fst (callback (block entry) (host s)) = Some e" and
        s1: "s1 = s\<lparr>lastApplied := lastApplied s + 1,
                      committed := committed s @ [block entry],
                      host := snd (callback (block entry) (host s))\<rparr>"
        by (auto simp: applyNext_eq split: option.splits)
      have one: "appliedBlocks (raftLog s) (lastApplied s) (lastApplied s + 1) = [block entry]"
        using g appliedBlocks_one [of "raftLog s" "lastApplied s"] by simp
      have run: "runAll callback (appliedBlocks (raftLog s) (lastApplied s) (commitIndex s)) (host s) =
                 (Some e, snd (callback (block entry) (host s)))"
        using step [of "commitIndex s"] True one th
        by (cases "callback (block entry) (host s)") simp
      show ?thesis
        using ac s1 cb one run True g
        by (intro exI [of _ "Some e"] exI [of _ "lastApplied s + 1"]
            exI [of _ "snd (callback (block entry) (host s))"]) simp
    next
      case None
      with n True have ac: "applyCommitted s = applyCommitted s1"
        by (subst applyCommitted.simps) simp
      from "1.IH" [OF True n [symmetric] None] obtain thrown la h where
        r: "applyCommitted s1 =
             (thrown,
              s1\<lparr>lastApplied := la,
                 committed := committed s1 @
                   (if onBlockCommitted s1 = None then []
                    else appliedBlocks (raftLog s1) (lastApplied s1) la),
                 host := h\<rparr>)" and
        ok: "thrown = None \<longrightarrow> la = max (lastApplied s1) (commitIndex s1)" and
        bad: "thrown \<noteq> None \<longrightarrow>
               lastApplied s1 < la \<and> la \<le> commitIndex s1 \<and> getEntry (raftLog s1) la \<noteq> None" and
        run: "case onBlockCommitted s1 of
                None \<Rightarrow> thrown = None \<and> h = host s1
              | Some callback \<Rightarrow>
                  (thrown, h) =
                    runAll callback (appliedBlocks (raftLog s1) (lastApplied s1) (commitIndex s1)) (host s1)"
        by blast
      from ok bad have la: "lastApplied s1 \<le> la"
        by (cases thrown) (simp_all add: max_def)
      show ?thesis
      proof (cases "getEntry (raftLog s) (lastApplied s + 1)")
        case g: None
        with n have s1: "s1 = s\<lparr>lastApplied := lastApplied s + 1\<rparr>"
          by (simp add: applyNext_eq)
        have one: "appliedBlocks (raftLog s) (lastApplied s) (lastApplied s + 1) = []"
          using g appliedBlocks_one [of "raftLog s" "lastApplied s"] by simp
        show ?thesis
          using ac r ok bad run la True one step [of la] step [of "commitIndex s"]
          by (intro exI [of _ thrown] exI [of _ la] exI [of _ h])
            (auto simp: s1 max_def split: option.splits)
      next
        case g: (Some entry)
        have one: "appliedBlocks (raftLog s) (lastApplied s) (lastApplied s + 1) = [block entry]"
          using g appliedBlocks_one [of "raftLog s" "lastApplied s"] by simp
        show ?thesis
        proof (cases "onBlockCommitted s")
          case cb: None
          with n g have s1: "s1 = s\<lparr>lastApplied := lastApplied s + 1\<rparr>"
            by (simp add: applyNext_eq)
          show ?thesis
            using ac r ok bad run la True cb
            by (intro exI [of _ thrown] exI [of _ la] exI [of _ h])
              (auto simp: s1 max_def split: option.splits)
        next
          case cb: (Some callback)
          with n g None have th: "fst (callback (block entry) (host s)) = None" and
            s1: "s1 = s\<lparr>lastApplied := lastApplied s + 1,
                      committed := committed s @ [block entry],
                      host := snd (callback (block entry) (host s))\<rparr>"
            by (simp_all add: applyNext_eq)
          have run': "runAll callback (appliedBlocks (raftLog s) (lastApplied s) (commitIndex s)) (host s) =
                runAll callback (appliedBlocks (raftLog s) (lastApplied s + 1) (commitIndex s))
                  (snd (callback (block entry) (host s)))"
            using step [of "commitIndex s"] True one th
            by (cases "callback (block entry) (host s)") simp
          show ?thesis
            using ac r ok bad run la True cb one step [of la] run'
            by (intro exI [of _ thrown] exI [of _ la] exI [of _ h])
              (auto simp: s1 max_def split: option.splits)
        qed
      qed
    qed
  qed
qed


lemma applyCommitted_fields [simp]:
  "commitIndex (snd (applyCommitted s)) = commitIndex s"
  "raftLog (snd (applyCommitted s)) = raftLog s"
  "outbox (snd (applyCommitted s)) = outbox s"
  "onBlockCommitted (snd (applyCommitted s)) = onBlockCommitted s"
proof -
  from applyCommitted_char [of s] obtain thrown la h c where
    "applyCommitted s = (thrown, s\<lparr>lastApplied := la, committed := c, host := h\<rparr>)"
    by blast
  then show "commitIndex (snd (applyCommitted s)) = commitIndex s"
    "raftLog (snd (applyCommitted s)) = raftLog s"
    "outbox (snd (applyCommitted s)) = outbox s"
    "onBlockCommitted (snd (applyCommitted s)) = onBlockCommitted s"
    by simp_all
qed

lemma applyCommitted_frame:
  "snd (applyCommitted s) =
     s\<lparr>lastApplied := lastApplied (snd (applyCommitted s)),
       committed := committed (snd (applyCommitted s)),
       host := host (snd (applyCommitted s))\<rparr>"
proof -
  from applyCommitted_char [of s] obtain thrown la h c where
    "applyCommitted s = (thrown, s\<lparr>lastApplied := la, committed := c, host := h\<rparr>)"
    by blast
  then show ?thesis by simp
qed

lemma applyCommitted_committed:
  "committed (snd (applyCommitted s)) =
     committed s @
       (if onBlockCommitted s = None then []
        else appliedBlocks (raftLog s) (lastApplied s) (lastApplied (snd (applyCommitted s))))"
proof -
  from applyCommitted_char [of s] obtain thrown la h where
    "applyCommitted s =
       (thrown,
        s\<lparr>lastApplied := la,
          committed := committed s @
            (if onBlockCommitted s = None then []
             else appliedBlocks (raftLog s) (lastApplied s) la),
          host := h\<rparr>)"
    by blast
  then show ?thesis by simp
qed

lemma applyCommitted_returns:
  "fst (applyCommitted s) = None \<Longrightarrow>
   lastApplied (snd (applyCommitted s)) = max (lastApplied s) (commitIndex s)"
proof -
  assume n: "fst (applyCommitted s) = None"
  from applyCommitted_char [of s] obtain thrown la h c where
    "applyCommitted s = (thrown, s\<lparr>lastApplied := la, committed := c, host := h\<rparr>)"
    "thrown = None \<longrightarrow> la = max (lastApplied s) (commitIndex s)"
    by blast
  with n show ?thesis by simp
qed

lemma applyCommitted_throws:
  "fst (applyCommitted s) \<noteq> None \<Longrightarrow>
   lastApplied s < lastApplied (snd (applyCommitted s)) \<and>
   lastApplied (snd (applyCommitted s)) \<le> commitIndex s \<and>
   getEntry (raftLog s) (lastApplied (snd (applyCommitted s))) \<noteq> None"
proof -
  assume n: "fst (applyCommitted s) \<noteq> None"
  from applyCommitted_char [of s] obtain thrown la h c where
    "applyCommitted s = (thrown, s\<lparr>lastApplied := la, committed := c, host := h\<rparr>)"
    "thrown \<noteq> None \<longrightarrow>
       lastApplied s < la \<and> la \<le> commitIndex s \<and> getEntry (raftLog s) la \<noteq> None"
    by blast
  with n show ?thesis by simp
qed

lemma applyCommitted_no_callback:
  "onBlockCommitted s = None \<Longrightarrow>
   fst (applyCommitted s) = None \<and> host (snd (applyCommitted s)) = host s"
proof -
  assume n: "onBlockCommitted s = None"
  from applyCommitted_char [of s] obtain thrown la h c where
    "applyCommitted s = (thrown, s\<lparr>lastApplied := la, committed := c, host := h\<rparr>)"
    "case onBlockCommitted s of
        None \<Rightarrow> thrown = None \<and> h = host s
      | Some callback \<Rightarrow>
          (thrown, h) =
            runAll callback (appliedBlocks (raftLog s) (lastApplied s) (commitIndex s)) (host s)"
    by blast
  with n show ?thesis by simp
qed

lemma applyCommitted_run:
  "onBlockCommitted s = Some callback \<Longrightarrow>
   (fst (applyCommitted s), host (snd (applyCommitted s))) =
     runAll callback (appliedBlocks (raftLog s) (lastApplied s) (commitIndex s)) (host s)"
proof -
  assume n: "onBlockCommitted s = Some callback"
  from applyCommitted_char [of s] obtain thrown la h c where
    "applyCommitted s = (thrown, s\<lparr>lastApplied := la, committed := c, host := h\<rparr>)"
    "case onBlockCommitted s of
        None \<Rightarrow> thrown = None \<and> h = host s
      | Some callback \<Rightarrow>
          (thrown, h) =
            runAll callback (appliedBlocks (raftLog s) (lastApplied s) (commitIndex s)) (host s)"
    by blast
  with n show ?thesis by simp
qed

lemma map_filter_getEntry_in_log:
  assumes "c \<le> length lg"
  shows "List.map_filter (getEntry lg) [a + 1 ..< c + 1] = map (\<lambda>i. lg ! (i - 1)) [a + 1 ..< c + 1]"
proof -
  have "\<forall>i \<in> set [a + 1 ..< c + 1]. getEntry lg i = Some (lg ! (i - 1))"
    using assms by (auto simp: getEntry_def)
  then show ?thesis
    by (induction "[a + 1 ..< c + 1]") (auto simp: List.map_filter_def filter_id_conv)
qed

lemma appliedBlocks_in_log:
  assumes "c \<le> length lg"
  shows "appliedBlocks lg a c = map (\<lambda>i. block (lg ! (i - 1))) [a + 1 ..< c + 1]"
  using map_filter_getEntry_in_log [OF assms, of a] by (simp add: appliedBlocks_def o_def)

text \<open>
  C5, as amended. When \<open>lastApplied \<le> commitIndex\<close>, every turn of the loop of
  \<open>applyCommitted\<close> raises \<open>lastApplied\<close> by exactly one, and \<open>lastApplied\<close> never passes
  the commit index. Provided a callback is registered, the callback receives, after the
  blocks it had received before, the blocks of the entries at the indices from the old
  \<open>lastApplied + 1\<close> to the new \<open>lastApplied\<close> in increasing order, once for each index
  at which the log has an entry (every index of the range when the commit index lies
  within the log); without a callback nothing is invoked and nothing is thrown. What is
  thrown and what the calls leave is what calling the callback on the blocks of
  \<open>lastApplied + 1 .. commitIndex\<close> one after the other, up to the first call that
  throws, gives. When nothing is thrown, \<open>lastApplied\<close> ends equal to \<open>commitIndex\<close>; the
  first call that throws ends the loop with \<open>lastApplied\<close> already raised to the index
  of an entry, the last whose block the callback has received.
  Nothing else of the node changes, and an index at or below the old \<open>lastApplied\<close> is
  in none of these ranges, so no applied entry is applied again.
\<close>

theorem applyCommitted_sequential:
  assumes "lastApplied s \<le> commitIndex s"
  shows "snd (applyCommitted s) =
           s\<lparr>lastApplied := lastApplied (snd (applyCommitted s)),
             committed := committed (snd (applyCommitted s)),
             host := host (snd (applyCommitted s))\<rparr> \<and>
         lastApplied s \<le> lastApplied (snd (applyCommitted s)) \<and>
         lastApplied (snd (applyCommitted s)) \<le> commitIndex s \<and>
         (fst (applyCommitted s) = None \<longrightarrow>
            lastApplied (snd (applyCommitted s)) = commitIndex s) \<and>
         (fst (applyCommitted s) \<noteq> None \<longrightarrow>
            lastApplied s < lastApplied (snd (applyCommitted s)) \<and>
            getEntry (raftLog s) (lastApplied (snd (applyCommitted s))) \<noteq> None) \<and>
         committed (snd (applyCommitted s)) =
           committed s @
             (if onBlockCommitted s = None then []
              else appliedBlocks (raftLog s) (lastApplied s) (lastApplied (snd (applyCommitted s)))) \<and>
         (commitIndex s \<le> getLastIndex (raftLog s) \<longrightarrow>
            appliedBlocks (raftLog s) (lastApplied s) (lastApplied (snd (applyCommitted s))) =
              map (\<lambda>i. block (raftLog s ! (i - 1)))
                [lastApplied s + 1 ..< lastApplied (snd (applyCommitted s)) + 1]) \<and>
         (onBlockCommitted s = None \<longrightarrow>
            fst (applyCommitted s) = None \<and> host (snd (applyCommitted s)) = host s) \<and>
         (\<forall>callback. onBlockCommitted s = Some callback \<longrightarrow>
            (fst (applyCommitted s), host (snd (applyCommitted s))) =
              runAll callback (appliedBlocks (raftLog s) (lastApplied s) (commitIndex s)) (host s)) \<and>
         (lastApplied s < commitIndex s \<longrightarrow>
            lastApplied (snd (applyNext s)) = lastApplied s + 1 \<and>
            applyCommitted s =
              (case applyNext s of
                 (None, s1) \<Rightarrow> applyCommitted s1
               | (Some e, s1) \<Rightarrow> (Some e, s1)))"
proof -
  let ?r = "applyCommitted s"
  have bounds: "lastApplied s \<le> lastApplied (snd ?r) \<and> lastApplied (snd ?r) \<le> commitIndex s"
    using assms applyCommitted_returns [of s] applyCommitted_throws [of s]
    by (cases "fst ?r") (simp_all add: max_def)
  have ret: "fst ?r = None \<longrightarrow> lastApplied (snd ?r) = commitIndex s"
    using assms applyCommitted_returns [of s] by (simp add: max_def)
  have thr: "fst ?r \<noteq> None \<longrightarrow>
      lastApplied s < lastApplied (snd ?r) \<and> getEntry (raftLog s) (lastApplied (snd ?r)) \<noteq> None"
    using applyCommitted_throws [of s] by simp
  have inlog: "appliedBlocks (raftLog s) (lastApplied s) (lastApplied (snd ?r)) =
        map (\<lambda>i. block (raftLog s ! (i - 1))) [lastApplied s + 1 ..< lastApplied (snd ?r) + 1]"
    if "commitIndex s \<le> getLastIndex (raftLog s)"
  proof (rule appliedBlocks_in_log)
    from that bounds show "lastApplied (snd ?r) \<le> length (raftLog s)"
      by (simp add: getLastIndex_def)
  qed
  have step: "lastApplied (snd (applyNext s)) = lastApplied s + 1 \<and>
        ?r = (case applyNext s of (None, s1) \<Rightarrow> applyCommitted s1 | (Some e, s1) \<Rightarrow> (Some e, s1))"
    if "lastApplied s < commitIndex s"
  proof
    show "lastApplied (snd (applyNext s)) = lastApplied s + 1"
      using applyNext_measure [of s "fst (applyNext s)" "snd (applyNext s)"] by simp
    show "?r = (case applyNext s of (None, s1) \<Rightarrow> applyCommitted s1 | (Some e, s1) \<Rightarrow> (Some e, s1))"
      using that by (subst applyCommitted.simps) simp
  qed
  from applyCommitted_frame [of s] bounds ret thr applyCommitted_committed [of s] inlog
    applyCommitted_no_callback [of s] applyCommitted_run [of s] step
  show ?thesis
    by (intro conjI impI allI) blast+
qed

theorem applyCommitted_sequential_witness:
  "lastApplied (leader3\<lparr>commitIndex := 2\<rparr>) \<le> commitIndex (leader3\<lparr>commitIndex := 2\<rparr>) \<and>
   fst (applyCommitted (leader3\<lparr>commitIndex := 2\<rparr>)) = None \<and>
   lastApplied (snd (applyCommitted (leader3\<lparr>commitIndex := 2\<rparr>))) = 2 \<and>
   committed (snd (applyCommitted (leader3\<lparr>commitIndex := 2\<rparr>))) = [sampleBlock 1, sampleBlock 2] \<and>
   host (snd (applyCommitted (leader3\<lparr>commitIndex := 2\<rparr>))) = 2"
proof -
  let ?s = "leader3\<lparr>commitIndex := 2\<rparr>"
  have h: "lastApplied ?s \<le> commitIndex ?s"
    by (simp add: leader3_def)
  have cb: "onBlockCommitted ?s = Some sampleCallback"
    and c: "commitIndex ?s = 2" and e: "committed ?s = []" and h0: "host ?s = 0"
    by (simp_all add: leader3_def)
  have n: "appliedBlocks (raftLog ?s) (lastApplied ?s) 2 = [sampleBlock 1, sampleBlock 2]"
    by (simp add: appliedBlocks_def leader3_def List.map_filter_def getEntry_def upt_conv_Cons)
  have run: "runAll sampleCallback [sampleBlock 1, sampleBlock 2] 0 = (None, 2)"
    by (simp add: sampleCallback_def sampleBlock_def)
  note t = applyCommitted_sequential [OF h]
  from t cb have "(fst (applyCommitted ?s), host (snd (applyCommitted ?s))) =
      runAll sampleCallback (appliedBlocks (raftLog ?s) (lastApplied ?s) (commitIndex ?s)) (host ?s)"
    by blast
  with n run c h0 have r: "fst (applyCommitted ?s) = None" "host (snd (applyCommitted ?s)) = 2"
    by simp_all
  from t r(1) have la: "lastApplied (snd (applyCommitted ?s)) = commitIndex ?s"
    by blast
  from t have "committed (snd (applyCommitted ?s)) =
      committed ?s @
        (if onBlockCommitted ?s = None then []
         else appliedBlocks (raftLog ?s) (lastApplied ?s) (lastApplied (snd (applyCommitted ?s))))"
    by blast
  with la c cb e n have "committed (snd (applyCommitted ?s)) = [sampleBlock 1, sampleBlock 2]"
    by simp
  with h r la c show ?thesis
    by simp
qed

text \<open>
  The claim as it was stated fails in two ways. Where no callback is registered, with two
  committed entries to apply, both in the log, \<open>lastApplied\<close> advances to 2 and the
  callback is called for neither. Where the callback throws on the first block, the
  exception leaves \<open>applyCommitted\<close> with \<open>lastApplied = 1\<close>, below the commit index 2, and
  the entry at index 2 is not handed to the callback.
\<close>

theorem applyCommitted_not_once_each_counterexample:
  "lastApplied (leader3\<lparr>commitIndex := 2, onBlockCommitted := None\<rparr>) \<le>
     commitIndex (leader3\<lparr>commitIndex := 2, onBlockCommitted := None\<rparr>) \<and>
   getEntry (raftLog (leader3\<lparr>commitIndex := 2, onBlockCommitted := None\<rparr>)) 1 \<noteq> None \<and>
   getEntry (raftLog (leader3\<lparr>commitIndex := 2, onBlockCommitted := None\<rparr>)) 2 \<noteq> None \<and>
   lastApplied (snd (applyCommitted (leader3\<lparr>commitIndex := 2, onBlockCommitted := None\<rparr>))) = 2 \<and>
   committed (snd (applyCommitted (leader3\<lparr>commitIndex := 2, onBlockCommitted := None\<rparr>))) = [] \<and>
   lastApplied (leader3\<lparr>commitIndex := 2, host := 5\<rparr>) \<le>
     commitIndex (leader3\<lparr>commitIndex := 2, host := 5\<rparr>) \<and>
   fst (applyCommitted (leader3\<lparr>commitIndex := 2, host := 5\<rparr>)) = Some (Error ''height mismatch'') \<and>
   lastApplied (snd (applyCommitted (leader3\<lparr>commitIndex := 2, host := 5\<rparr>))) = 1 \<and>
   committed (snd (applyCommitted (leader3\<lparr>commitIndex := 2, host := 5\<rparr>))) = [sampleBlock 1]"
proof -
  let ?s = "leader3\<lparr>commitIndex := 2, onBlockCommitted := None\<rparr>"
  let ?t = "leader3\<lparr>commitIndex := 2, host := 5\<rparr>"
  have s1: "applyNext ?s = (None, ?s\<lparr>lastApplied := 1\<rparr>)"
    by (simp add: applyNext_def leader3_def getEntry_def Let_def)
  have s2: "applyNext (?s\<lparr>lastApplied := 1\<rparr>) = (None, ?s\<lparr>lastApplied := 2\<rparr>)"
    by (simp add: applyNext_def leader3_def getEntry_def Let_def)
  have "applyCommitted (?s\<lparr>lastApplied := 2\<rparr>) = (None, ?s\<lparr>lastApplied := 2\<rparr>)"
    by (subst applyCommitted.simps) (simp add: leader3_def)
  then have "applyCommitted (?s\<lparr>lastApplied := 1\<rparr>) = (None, ?s\<lparr>lastApplied := 2\<rparr>)"
    using s2 by (subst applyCommitted.simps) (simp add: leader3_def)
  then have a: "applyCommitted ?s = (None, ?s\<lparr>lastApplied := 2\<rparr>)"
    using s1 by (subst applyCommitted.simps) (simp add: leader3_def)
  have "applyNext ?t =
          (Some (Error ''height mismatch''), ?t\<lparr>lastApplied := 1, committed := [sampleBlock 1]\<rparr>)"
    by (simp add: applyNext_def leader3_def getEntry_def Let_def sampleCallback_def sampleBlock_def)
  then have b: "applyCommitted ?t =
          (Some (Error ''height mismatch''), ?t\<lparr>lastApplied := 1, committed := [sampleBlock 1]\<rparr>)"
    by (subst applyCommitted.simps) (simp add: leader3_def)
  show ?thesis
    unfolding a b by (simp add: leader3_def getEntry_def)
qed

subsection \<open>Properties of commit index advancement\<close>

lemma countReplicas_filter:
  "countReplicas s n ids c = c + length (filter (\<lambda>nid. matchOf s nid \<ge> n) ids)"
  by (induction ids arbitrary: c) auto

lemma replicatedCount_filter:
  "replicatedCount s n = length (filter (\<lambda>nid. matchOf s nid \<ge> n) (allNodeIds s))"
  by (simp add: replicatedCount_def countReplicas_filter)

text \<open>
  When no node id is listed twice, the count of the inner loop is the number of voters
  whose match index is at least \<open>n\<close>, and the length of the list the number of voters.
\<close>

lemma replicatedCount_card:
  assumes "distinct (allNodeIds s)"
  shows "replicatedCount s n = card {nid \<in> set (allNodeIds s). matchOf s nid \<ge> n}"
proof -
  have "distinct (filter (\<lambda>nid. matchOf s nid \<ge> n) (allNodeIds s))"
    using assms by simp
  then have "card (set (filter (\<lambda>nid. matchOf s nid \<ge> n) (allNodeIds s))) =
             length (filter (\<lambda>nid. matchOf s nid \<ge> n) (allNodeIds s))"
    by (rule distinct_card)
  moreover have "set (filter (\<lambda>nid. matchOf s nid \<ge> n) (allNodeIds s)) =
                 {nid \<in> set (allNodeIds s). matchOf s nid \<ge> n}"
    by (rule set_filter)
  ultimately show ?thesis
    by (simp only: replicatedCount_filter)
qed

lemma majority_card:
  "distinct (allNodeIds s) \<Longrightarrow> majority s = card (set (allNodeIds s)) div 2 + 1"
  by (simp add: majority_def distinct_card)

lemma commitCandidate_iff:
  "commitCandidate s n \<longleftrightarrow>
     (\<exists>entry. getEntry (raftLog s) n = Some entry \<and> term entry = currentTerm s) \<and>
     replicatedCount s n \<ge> majority s"
  by (auto simp: commitCandidate_def replicatedCount_filter majority_def split: option.splits)

lemma scanCommit_none:
  "(\<forall>m. commitIndex s < m \<and> m \<le> n \<longrightarrow> \<not> commitCandidate s m) \<Longrightarrow> scanCommit s n = (None, s)"
proof (induction s n rule: scanCommit.induct)
  case (1 s n)
  show ?case
  proof (cases "n > commitIndex s")
    case False
    then show ?thesis by (simp add: scanCommit.simps)
  next
    case True
    from "1.prems" True have notc: "\<not> commitCandidate s n" by simp
    have below: "\<forall>m. commitIndex s < m \<and> m \<le> n - 1 \<longrightarrow> \<not> commitCandidate s m"
    proof (intro allI impI)
      fix m
      assume "commitIndex s < m \<and> m \<le> n - 1"
      then have "commitIndex s < m \<and> m \<le> n" by arith
      with "1.prems" show "\<not> commitCandidate s m" by blast
    qed
    show ?thesis
    proof (cases "getEntry (raftLog s) n")
      case None
      with True "1.IH"(1) below show ?thesis
        by (subst scanCommit.simps) simp
    next
      case (Some entry)
      show ?thesis
      proof (cases "term entry \<noteq> currentTerm s")
        case True
        with \<open>n > commitIndex s\<close> Some "1.IH"(2) below show ?thesis
          by (subst scanCommit.simps) simp
      next
        case False
        with notc Some have low: "\<not> replicatedCount s n \<ge> majority s"
          by (simp add: commitCandidate_iff)
        with \<open>n > commitIndex s\<close> Some False "1.IH"(3) below show ?thesis
          by (subst scanCommit.simps) simp
      qed
    qed
  qed
qed

lemma scanCommit_hit:
  "commitIndex s < k \<Longrightarrow> k \<le> n \<Longrightarrow> commitCandidate s k \<Longrightarrow>
   (\<forall>m. k < m \<and> m \<le> n \<longrightarrow> \<not> commitCandidate s m) \<Longrightarrow>
   scanCommit s n = applyCommitted (s\<lparr>commitIndex := k\<rparr>)"
proof (induction s n rule: scanCommit.induct)
  case (1 s n)
  from "1.prems" have gt: "n > commitIndex s" by simp
  show ?case
  proof (cases "k = n")
    case True
    with "1.prems"(3) obtain entry where e: "getEntry (raftLog s) n = Some entry"
      "term entry = currentTerm s" and cnt: "replicatedCount s n \<ge> majority s"
      by (auto simp: commitCandidate_iff)
    with gt True show ?thesis
      by (subst scanCommit.simps) simp
  next
    case False
    with "1.prems" have kn: "k \<le> n - 1" and notc: "\<not> commitCandidate s n"
      and above: "\<forall>m. k < m \<and> m \<le> n - 1 \<longrightarrow> \<not> commitCandidate s m"
      by auto
    show ?thesis
    proof (cases "getEntry (raftLog s) n")
      case None
      with gt "1.IH"(1) [OF gt None "1.prems"(1) kn "1.prems"(3) above] show ?thesis
        by (subst scanCommit.simps) simp
    next
      case (Some entry)
      show ?thesis
      proof (cases "term entry \<noteq> currentTerm s")
        case True
        with gt Some "1.IH"(2) [OF gt Some True "1.prems"(1) kn "1.prems"(3) above] show ?thesis
          by (subst scanCommit.simps) simp
      next
        case False
        with notc Some have low: "\<not> replicatedCount s n \<ge> majority s"
          by (simp add: commitCandidate_iff)
        with gt Some False "1.IH"(3) [OF gt Some False low "1.prems"(1) kn "1.prems"(3) above]
        show ?thesis
          by (subst scanCommit.simps) simp
      qed
    qed
  qed
qed

lemma scanCommit_result:
  "commitIndex (snd (scanCommit s n)) = commitIndex s \<or>
   (commitIndex s < commitIndex (snd (scanCommit s n)) \<and> commitIndex (snd (scanCommit s n)) \<le> n \<and>
    commitCandidate s (commitIndex (snd (scanCommit s n))))"
proof (cases "\<exists>m. commitIndex s < m \<and> m \<le> n \<and> commitCandidate s m")
  case False
  then have "scanCommit s n = (None, s)"
    by (intro scanCommit_none) blast
  then show ?thesis by simp
next
  case True
  define P where "P m \<longleftrightarrow> commitIndex s < m \<and> m \<le> n \<and> commitCandidate s m" for m
  from True have ex: "\<exists>m. P m" by (simp add: P_def)
  have bound: "\<forall>m. P m \<longrightarrow> m \<le> n" by (simp add: P_def)
  define k where "k = (GREATEST m. P m)"
  from ex bound have Pk: "P k"
    unfolding k_def by (metis GreatestI_ex_nat)
  have top: "\<forall>m. P m \<longrightarrow> m \<le> k"
    unfolding k_def using bound by (metis Greatest_le_nat)
  have "scanCommit s n = applyCommitted (s\<lparr>commitIndex := k\<rparr>)"
  proof (rule scanCommit_hit)
    show "commitIndex s < k" "k \<le> n" "commitCandidate s k"
      using Pk by (simp_all add: P_def)
    show "\<forall>m. k < m \<and> m \<le> n \<longrightarrow> \<not> commitCandidate s m"
      using top Pk by (fastforce simp: P_def)
  qed
  with Pk show ?thesis
    by (simp add: P_def)
qed

text \<open>
  C1, as amended. For a leader, \<open>advanceCommitIndex\<close> sets the commit index to the
  highest index \<open>n\<close> in \<open>commitIndex + 1 .. last log index\<close> whose entry carries the
  current term and whose replica count (the leader included) reaches \<open>floor(N/2) + 1\<close>,
  and runs \<open>applyCommitted\<close> on the newly committed entries. When no call of the callback
  throws, \<open>lastApplied\<close> ends at that index and the callback, if one is registered, has
  received the blocks of the entries at \<open>lastApplied + 1 .. n\<close> in order. When a call
  throws, the commit index stays at \<open>n\<close>, \<open>lastApplied\<close> stops at the index of an entry
  at or below \<open>n\<close>, the last whose block the callback has received, and the later
  entries are not applied. Nothing else of the node changes. When no index
  of the range qualifies, nothing changes at all. The commit index left is either the old
  one or such an index, so an index whose entry carries an earlier term is never chosen.
\<close>

theorem advanceCommitIndex_highest_candidate:
  assumes "role s = Leader"
  shows "(\<forall>n. commitIndex s < n \<and> n \<le> getLastIndex (raftLog s) \<and> commitCandidate s n \<and>
              (\<forall>m. n < m \<and> m \<le> getLastIndex (raftLog s) \<longrightarrow> \<not> commitCandidate s m)
            \<longrightarrow> advanceCommitIndex s = applyCommitted (s\<lparr>commitIndex := n\<rparr>) \<and>
                 snd (advanceCommitIndex s) =
                   s\<lparr>commitIndex := n,
                     lastApplied := lastApplied (snd (advanceCommitIndex s)),
                     committed := committed (snd (advanceCommitIndex s)),
                     host := host (snd (advanceCommitIndex s))\<rparr> \<and>
                 (fst (advanceCommitIndex s) = None \<longrightarrow>
                    lastApplied (snd (advanceCommitIndex s)) = max (lastApplied s) n \<and>
                    committed (snd (advanceCommitIndex s)) =
                      committed s @
                        (if onBlockCommitted s = None then []
                         else appliedBlocks (raftLog s) (lastApplied s) n)) \<and>
                 (fst (advanceCommitIndex s) \<noteq> None \<longrightarrow>
                    lastApplied s < lastApplied (snd (advanceCommitIndex s)) \<and>
                    lastApplied (snd (advanceCommitIndex s)) \<le> n \<and>
                    getEntry (raftLog s) (lastApplied (snd (advanceCommitIndex s))) \<noteq> None \<and>
                    committed (snd (advanceCommitIndex s)) =
                      committed s @
                        appliedBlocks (raftLog s) (lastApplied s)
                          (lastApplied (snd (advanceCommitIndex s)))) \<and>
                 (onBlockCommitted s = None \<longrightarrow> fst (advanceCommitIndex s) = None) \<and>
                 (\<forall>callback. onBlockCommitted s = Some callback \<longrightarrow>
                    (fst (advanceCommitIndex s), host (snd (advanceCommitIndex s))) =
                      runAll callback (appliedBlocks (raftLog s) (lastApplied s) n) (host s))) \<and>
         ((\<forall>n. commitIndex s < n \<and> n \<le> getLastIndex (raftLog s) \<longrightarrow> \<not> commitCandidate s n)
            \<longrightarrow> advanceCommitIndex s = (None, s)) \<and>
         (commitIndex (snd (advanceCommitIndex s)) = commitIndex s \<or>
          commitCandidate s (commitIndex (snd (advanceCommitIndex s))))"
proof (intro conjI allI impI)
  fix n
  assume h: "commitIndex s < n \<and> n \<le> getLastIndex (raftLog s) \<and> commitCandidate s n \<and>
          (\<forall>m. n < m \<and> m \<le> getLastIndex (raftLog s) \<longrightarrow> \<not> commitCandidate s m)"
  let ?s1 = "s\<lparr>commitIndex := n\<rparr>"
  let ?r = "advanceCommitIndex s"
  from h have eq: "?r = applyCommitted ?s1"
    using assms by (simp add: advanceCommitIndex_def scanCommit_hit)
  show "?r = applyCommitted ?s1"
    by (rule eq)
  show "snd ?r = s\<lparr>commitIndex := n, lastApplied := lastApplied (snd ?r),
                    committed := committed (snd ?r), host := host (snd ?r)\<rparr>"
    unfolding eq by (subst applyCommitted_frame) simp
  show "lastApplied (snd ?r) = max (lastApplied s) n" if "fst ?r = None"
    using that applyCommitted_returns [of ?s1] unfolding eq by simp
  show "committed (snd ?r) =
          committed s @
            (if onBlockCommitted s = None then [] else appliedBlocks (raftLog s) (lastApplied s) n)"
    if "fst ?r = None"
  proof -
    from that have la: "lastApplied (snd (applyCommitted ?s1)) = max (lastApplied s) n"
      using applyCommitted_returns [of ?s1] unfolding eq by simp
    have "appliedBlocks (raftLog s) (lastApplied s) (max (lastApplied s) n) =
          appliedBlocks (raftLog s) (lastApplied s) n"
      by (cases "lastApplied s \<le> n") (simp_all add: max_def appliedBlocks_empty)
    with la show ?thesis
      unfolding eq by (subst applyCommitted_committed) simp
  qed
  show "lastApplied s < lastApplied (snd ?r)" if "fst ?r \<noteq> None"
    using that applyCommitted_throws [of ?s1] unfolding eq by simp
  show "lastApplied (snd ?r) \<le> n" if "fst ?r \<noteq> None"
    using that applyCommitted_throws [of ?s1] unfolding eq by simp
  show "getEntry (raftLog s) (lastApplied (snd ?r)) \<noteq> None" if "fst ?r \<noteq> None"
    using that applyCommitted_throws [of ?s1] unfolding eq by simp
  show "committed (snd ?r) =
          committed s @ appliedBlocks (raftLog s) (lastApplied s) (lastApplied (snd ?r))"
    if "fst ?r \<noteq> None"
  proof -
    have "onBlockCommitted s \<noteq> None"
    proof
      assume "onBlockCommitted s = None"
      then have "fst (applyCommitted ?s1) = None"
        using applyCommitted_no_callback [of ?s1] by simp
      with that show False
        unfolding eq by simp
    qed
    then show ?thesis
      unfolding eq by (subst applyCommitted_committed) auto
  qed
  show "fst ?r = None" if "onBlockCommitted s = None"
    using that applyCommitted_no_callback [of ?s1] unfolding eq by simp
  show "(fst ?r, host (snd ?r)) =
          runAll callback (appliedBlocks (raftLog s) (lastApplied s) n) (host s)"
    if "onBlockCommitted s = Some callback" for callback
    using that applyCommitted_run [of ?s1 callback] unfolding eq by simp
next
  assume "\<forall>n. commitIndex s < n \<and> n \<le> getLastIndex (raftLog s) \<longrightarrow> \<not> commitCandidate s n"
  then show "advanceCommitIndex s = (None, s)"
    using assms by (simp add: advanceCommitIndex_def scanCommit_none)
next
  show "commitIndex (snd (advanceCommitIndex s)) = commitIndex s \<or>
        commitCandidate s (commitIndex (snd (advanceCommitIndex s)))"
    using assms scanCommit_result [of s "getLastIndex (raftLog s)"]
    by (auto simp: advanceCommitIndex_def)
qed

theorem advanceCommitIndex_highest_candidate_witness:
  "role leader3 = Leader \<and> commitCandidate leader3 2 \<and> \<not> commitCandidate leader3 3 \<and>
   fst (advanceCommitIndex leader3) = None \<and>
   commitIndex (snd (advanceCommitIndex leader3)) = 2 \<and>
   lastApplied (snd (advanceCommitIndex leader3)) = 2 \<and>
   committed (snd (advanceCommitIndex leader3)) = [sampleBlock 1, sampleBlock 2] \<and>
   host (snd (advanceCommitIndex leader3)) = 2"
proof -
  let ?r = "advanceCommitIndex leader3"
  have r: "role leader3 = Leader"
    by (simp add: leader3_def)
  have c2: "commitCandidate leader3 2"
    by (simp add: commitCandidate_def leader3_def getEntry_def allNodeIds_def matchOf_def
        getLastIndex_def)
  have c3: "\<not> commitCandidate leader3 3"
    by (simp add: commitCandidate_def leader3_def getEntry_def allNodeIds_def matchOf_def
        getLastIndex_def)
  have above: "\<forall>m. 2 < m \<and> m \<le> getLastIndex (raftLog leader3) \<longrightarrow> \<not> commitCandidate leader3 m"
  proof (intro allI impI)
    fix m :: nat
    assume "2 < m \<and> m \<le> getLastIndex (raftLog leader3)"
    then have "m = 3" by (simp add: leader3_def getLastIndex_def)
    with c3 show "\<not> commitCandidate leader3 m" by simp
  qed
  have range: "commitIndex leader3 < 2 \<and> 2 \<le> getLastIndex (raftLog leader3)"
    by (simp add: leader3_def getLastIndex_def)
  have cb: "onBlockCommitted leader3 = Some sampleCallback"
    and e: "committed leader3 = []" and h0: "host leader3 = 0" and la0: "lastApplied leader3 = 0"
    by (simp_all add: leader3_def)
  have n: "appliedBlocks (raftLog leader3) (lastApplied leader3) 2 = [sampleBlock 1, sampleBlock 2]"
    by (simp add: appliedBlocks_def leader3_def List.map_filter_def getEntry_def upt_conv_Cons)
  have run: "runAll sampleCallback [sampleBlock 1, sampleBlock 2] 0 = (None, 2)"
    by (simp add: sampleCallback_def sampleBlock_def)
  from advanceCommitIndex_highest_candidate [OF r] range c2 above
  have t: "snd ?r =
             leader3\<lparr>commitIndex := 2, lastApplied := lastApplied (snd ?r),
                     committed := committed (snd ?r), host := host (snd ?r)\<rparr> \<and>
           (fst ?r = None \<longrightarrow>
              lastApplied (snd ?r) = max (lastApplied leader3) 2 \<and>
              committed (snd ?r) =
                committed leader3 @
                  (if onBlockCommitted leader3 = None then []
                   else appliedBlocks (raftLog leader3) (lastApplied leader3) 2)) \<and>
           (\<forall>callback. onBlockCommitted leader3 = Some callback \<longrightarrow>
              (fst ?r, host (snd ?r)) =
                runAll callback (appliedBlocks (raftLog leader3) (lastApplied leader3) 2) (host leader3))"
    by blast
  with cb n run h0 have f: "fst ?r = None" "host (snd ?r) = 2"
    by simp_all
  from t have "commitIndex (snd ?r) = commitIndex (leader3\<lparr>commitIndex := 2, lastApplied := lastApplied (snd ?r),
                     committed := committed (snd ?r), host := host (snd ?r)\<rparr>)"
    by simp
  then have ci: "commitIndex (snd ?r) = 2"
    by simp
  from t f(1) cb n e la0 have "lastApplied (snd ?r) = 2"
    "committed (snd ?r) = [sampleBlock 1, sampleBlock 2]"
    by simp_all
  with r c2 c3 f ci show ?thesis by simp
qed

text \<open>
  The claim as it was stated fails where the callback throws: the leader below commits
  index 2, the callback throws on the block of index 1, and the exception leaves
  \<open>advanceCommitIndex\<close> with the commit index at 2 and \<open>lastApplied\<close> at 1; the newly
  committed entry at index 2 has not been applied.
\<close>

theorem advanceCommitIndex_throwing_callback_counterexample:
  "role (leader3\<lparr>host := 5\<rparr>) = Leader \<and>
   commitCandidate (leader3\<lparr>host := 5\<rparr>) 2 \<and>
   \<not> commitCandidate (leader3\<lparr>host := 5\<rparr>) 3 \<and>
   fst (advanceCommitIndex (leader3\<lparr>host := 5\<rparr>)) = Some (Error ''height mismatch'') \<and>
   commitIndex (snd (advanceCommitIndex (leader3\<lparr>host := 5\<rparr>))) = 2 \<and>
   lastApplied (snd (advanceCommitIndex (leader3\<lparr>host := 5\<rparr>))) = 1 \<and>
   committed (snd (advanceCommitIndex (leader3\<lparr>host := 5\<rparr>))) = [sampleBlock 1]"
proof -
  let ?s = "leader3\<lparr>host := 5\<rparr>"
  let ?t = "leader3\<lparr>host := 5, commitIndex := 2\<rparr>"
  have c2: "commitCandidate ?s 2"
    by (simp add: commitCandidate_def leader3_def getEntry_def allNodeIds_def matchOf_def
        getLastIndex_def)
  have c3: "\<not> commitCandidate ?s 3"
    by (simp add: commitCandidate_def leader3_def getEntry_def allNodeIds_def matchOf_def
        getLastIndex_def)
  have "scanCommit ?s (getLastIndex (raftLog ?s)) = applyCommitted (?s\<lparr>commitIndex := 2\<rparr>)"
  proof (rule scanCommit_hit)
    show "commitIndex ?s < 2" "2 \<le> getLastIndex (raftLog ?s)"
      by (simp_all add: leader3_def getLastIndex_def)
    show "commitCandidate ?s 2" by (rule c2)
    show "\<forall>m. 2 < m \<and> m \<le> getLastIndex (raftLog ?s) \<longrightarrow> \<not> commitCandidate ?s m"
    proof (intro allI impI)
      fix m :: nat
      assume "2 < m \<and> m \<le> getLastIndex (raftLog ?s)"
      then have "m = 3" by (simp add: leader3_def getLastIndex_def)
      with c3 show "\<not> commitCandidate ?s m" by simp
    qed
  qed
  then have a: "advanceCommitIndex ?s = applyCommitted ?t"
    by (simp add: advanceCommitIndex_def leader3_def)
  have "applyNext ?t =
          (Some (Error ''height mismatch''), ?t\<lparr>lastApplied := 1, committed := [sampleBlock 1]\<rparr>)"
    by (simp add: applyNext_def leader3_def getEntry_def Let_def sampleCallback_def sampleBlock_def)
  then have b: "applyCommitted ?t =
          (Some (Error ''height mismatch''), ?t\<lparr>lastApplied := 1, committed := [sampleBlock 1]\<rparr>)"
    by (subst applyCommitted.simps) (simp add: leader3_def)
  from c2 c3 show ?thesis
    unfolding a b by (simp add: leader3_def)
qed

subsection \<open>Properties of vote granting\<close>

text \<open>
  C6. The candidate's log counts as at least as up to date exactly when its last log term
  is higher than the voter's, or the last log terms are equal and its last log index is
  at least the voter's. The vote is granted exactly when, besides that, the candidate's
  term is at least the voter's current term and the voter has not voted in this term for
  another candidate (a request of a higher term opens a new term, in which the voter has
  not voted yet).
\<close>

theorem vote_granting_rule:
  "(isLogUpToDate s lastLogIndex lastLogTerm \<longleftrightarrow>
      lastLogTerm > getLastTerm (raftLog s) \<or>
      (lastLogTerm = getLastTerm (raftLog s) \<and> lastLogIndex \<ge> getLastIndex (raftLog s))) \<and>
   (snd (handleRequestVote s reqTerm candidateId lastLogIndex lastLogTerm) \<longleftrightarrow>
      reqTerm \<ge> currentTerm s \<and>
      \<not> (reqTerm = currentTerm s \<and> votedFor s \<noteq> None \<and> votedFor s \<noteq> Some candidateId) \<and>
      isLogUpToDate s lastLogIndex lastLogTerm)"
proof
  show "isLogUpToDate s lastLogIndex lastLogTerm \<longleftrightarrow>
      lastLogTerm > getLastTerm (raftLog s) \<or>
      (lastLogTerm = getLastTerm (raftLog s) \<and> lastLogIndex \<ge> getLastIndex (raftLog s))"
    by (auto simp: isLogUpToDate_def Let_def)
next
  have same: "isLogUpToDate (stepDown s reqTerm) lastLogIndex lastLogTerm =
              isLogUpToDate s lastLogIndex lastLogTerm"
    by (simp add: isLogUpToDate_def stepDown_def)
  show "snd (handleRequestVote s reqTerm candidateId lastLogIndex lastLogTerm) \<longleftrightarrow>
      reqTerm \<ge> currentTerm s \<and>
      \<not> (reqTerm = currentTerm s \<and> votedFor s \<noteq> None \<and> votedFor s \<noteq> Some candidateId) \<and>
      isLogUpToDate s lastLogIndex lastLogTerm"
  proof (cases "reqTerm > currentTerm s")
    case True
    then show ?thesis
      using same by (simp add: handleRequestVote_def Let_def stepDown_def)
  next
    case False
    then show ?thesis
      by (auto simp: handleRequestVote_def Let_def)
  qed
qed

theorem vote_granting_rule_witness:
  "isLogUpToDate leader3 3 2 \<and> \<not> isLogUpToDate leader3 10 1 \<and>
   snd (handleRequestVote leader3 3 ''n2'' 3 2) \<and>
   \<not> snd (handleRequestVote leader3 2 ''n2'' 3 2) \<and>
   \<not> snd (handleRequestVote leader3 3 ''n2'' 10 1)"
proof -
  have v: "getLastTerm (raftLog leader3) = 2" "getLastIndex (raftLog leader3) = 3"
    "currentTerm leader3 = 2" "votedFor leader3 = Some ''n1''"
    by (simp_all add: leader3_def getLastTerm_def getLastIndex_def)
  from vote_granting_rule [of leader3 3 2 3 "''n2''"] v
  have "isLogUpToDate leader3 3 2" and "snd (handleRequestVote leader3 3 ''n2'' 3 2)"
    by simp_all
  moreover from vote_granting_rule [of leader3 3 2 2 "''n2''"] v
  have "\<not> snd (handleRequestVote leader3 2 ''n2'' 3 2)"
    by simp
  moreover from vote_granting_rule [of leader3 10 1 3 "''n2''"] v
  have "\<not> isLogUpToDate leader3 10 1" and "\<not> snd (handleRequestVote leader3 3 ''n2'' 10 1)"
    by simp_all
  ultimately show ?thesis
    by simp
qed

subsection \<open>Properties of the single-node cluster\<close>

lemma startElection_sole_voter:
  assumes "length (allNodeIds s) = 1"
  shows "startElection s =
           s\<lparr>currentTerm := currentTerm s + 1, role := Leader, votedFor := Some (nodeId s),
             leaderId := Some (nodeId s), electionTimerOn := False, heartbeatTimerOn := True,
             events := events s @ [''leader'']\<rparr>"
proof -
  from assms have k: "knownNodeIds s = []"
    by (simp add: allNodeIds_def)
  then show ?thesis
    by (simp add: startElection_def becomeLeader_def sendHeartbeats_def allNodeIds_def Let_def)
qed

lemma proposeBlock_sole_leader:
  assumes k: "knownNodeIds s = []" and r: "role s = Leader"
    and c: "commitIndex s \<le> getLastIndex (raftLog s)"
  shows "proposeBlock b s =
           applyCommitted
             (s\<lparr>raftLog := raftLog s @ [\<lparr>term = currentTerm s, index = getLastIndex (raftLog s) + 1, block = b\<rparr>],
                matchIndex := (matchIndex s)(nodeId s \<mapsto> getLastIndex (raftLog s) + 1),
                commitIndex := getLastIndex (raftLog s) + 1\<rparr>)"
proof -
  let ?e = "\<lparr>term = currentTerm s, index = getLastIndex (raftLog s) + 1, block = b\<rparr>"
  let ?s3 = "s\<lparr>raftLog := raftLog s @ [?e],
               matchIndex := (matchIndex s)(nodeId s \<mapsto> getLastIndex (raftLog s) + 1)\<rparr>"
  let ?n = "getLastIndex (raftLog s) + 1"
  have p: "proposeBlock b s = scanCommit ?s3 ?n"
    using k r
    by (simp add: proposeBlock_def Let_def append_entry_def sendHeartbeats_def advanceCommitIndex_def
        getLastIndex_def)
  have cand: "commitCandidate ?s3 ?n"
    using k
    by (simp add: commitCandidate_def getEntry_def getLastIndex_def allNodeIds_def matchOf_def)
  have "scanCommit ?s3 ?n = applyCommitted (?s3\<lparr>commitIndex := ?n\<rparr>)"
  proof (rule scanCommit_hit)
    show "commitIndex ?s3 < ?n" using c by simp
    show "?n \<le> ?n" by simp
    show "commitCandidate ?s3 ?n" by (rule cand)
    show "\<forall>m. ?n < m \<and> m \<le> ?n \<longrightarrow> \<not> commitCandidate ?s3 m" by auto
  qed
  with p show ?thesis by simp
qed

text \<open>
  C7. When the node is the only voter (the voter list has length 1), starting an election
  makes it leader of the next term at once and sends no message at all, so no
  \<open>RequestVote\<close>. From then on it commits at once: a block it proposes is appended with
  the new term and becomes the commit index in the same call, again with no message sent
  (given the commit index was within the log), and the call applies the committed
  entries: \<open>lastApplied\<close> reaches the new commit index unless a call of the callback
  throws, which cannot happen where no callback is registered.
\<close>

theorem sole_voter_elects_itself:
  assumes "length (allNodeIds s) = 1"
  shows "role (startElection s) = Leader \<and>
         leaderId (startElection s) = Some (nodeId s) \<and>
         currentTerm (startElection s) = currentTerm s + 1 \<and>
         outbox (startElection s) = outbox s \<and>
         (commitIndex s \<le> getLastIndex (raftLog s) \<longrightarrow>
            raftLog (snd (proposeBlock b (startElection s))) =
              raftLog s @ [\<lparr>term = currentTerm s + 1, index = getLastIndex (raftLog s) + 1, block = b\<rparr>] \<and>
            commitIndex (snd (proposeBlock b (startElection s))) = getLastIndex (raftLog s) + 1 \<and>
            outbox (snd (proposeBlock b (startElection s))) = outbox s \<and>
            (fst (proposeBlock b (startElection s)) = None \<longrightarrow>
               lastApplied (snd (proposeBlock b (startElection s))) =
                 max (lastApplied s) (getLastIndex (raftLog s) + 1)) \<and>
            (fst (proposeBlock b (startElection s)) \<noteq> None \<longrightarrow>
               lastApplied s < lastApplied (snd (proposeBlock b (startElection s))) \<and>
               lastApplied (snd (proposeBlock b (startElection s))) \<le> getLastIndex (raftLog s) + 1) \<and>
            (onBlockCommitted s = None \<longrightarrow> fst (proposeBlock b (startElection s)) = None) \<and>
            (\<forall>callback. onBlockCommitted s = Some callback \<longrightarrow>
               (fst (proposeBlock b (startElection s)), host (snd (proposeBlock b (startElection s)))) =
                 runAll callback
                   (appliedBlocks
                      (raftLog s @ [\<lparr>term = currentTerm s + 1, index = getLastIndex (raftLog s) + 1, block = b\<rparr>])
                      (lastApplied s) (getLastIndex (raftLog s) + 1))
                   (host s)))"
proof -
  note se = startElection_sole_voter [OF assms]
  from assms have k: "knownNodeIds s = []"
    by (simp add: allNodeIds_def)
  let ?p = "proposeBlock b (startElection s)"
  let ?e = "\<lparr>term = currentTerm s + 1, index = getLastIndex (raftLog s) + 1, block = b\<rparr>"
  have first: "role (startElection s) = Leader \<and>
         leaderId (startElection s) = Some (nodeId s) \<and>
         currentTerm (startElection s) = currentTerm s + 1 \<and>
         outbox (startElection s) = outbox s"
    by (simp add: se)
  have second: "raftLog (snd ?p) = raftLog s @ [?e] \<and>
            commitIndex (snd ?p) = getLastIndex (raftLog s) + 1 \<and>
            outbox (snd ?p) = outbox s \<and>
            (fst ?p = None \<longrightarrow>
               lastApplied (snd ?p) = max (lastApplied s) (getLastIndex (raftLog s) + 1)) \<and>
            (fst ?p \<noteq> None \<longrightarrow>
               lastApplied s < lastApplied (snd ?p) \<and>
               lastApplied (snd ?p) \<le> getLastIndex (raftLog s) + 1) \<and>
            (onBlockCommitted s = None \<longrightarrow> fst ?p = None) \<and>
            (\<forall>callback. onBlockCommitted s = Some callback \<longrightarrow>
               (fst ?p, host (snd ?p)) =
                 runAll callback
                   (appliedBlocks (raftLog s @ [?e]) (lastApplied s) (getLastIndex (raftLog s) + 1))
                   (host s))"
    if c: "commitIndex s \<le> getLastIndex (raftLog s)"
  proof -
    have k': "knownNodeIds (startElection s) = []" and r': "role (startElection s) = Leader"
      and c': "commitIndex (startElection s) \<le> getLastIndex (raftLog (startElection s))"
      using k c by (simp_all add: se)
    let ?s4 = "(startElection s)
          \<lparr>raftLog := raftLog (startElection s) @
             [\<lparr>term = currentTerm (startElection s),
               index = getLastIndex (raftLog (startElection s)) + 1, block = b\<rparr>],
           matchIndex := (matchIndex (startElection s))
             (nodeId (startElection s) \<mapsto> getLastIndex (raftLog (startElection s)) + 1),
           commitIndex := getLastIndex (raftLog (startElection s)) + 1\<rparr>"
    have p: "?p = applyCommitted ?s4"
      by (rule proposeBlock_sole_leader [OF k' r' c'])
    have f: "raftLog ?s4 = raftLog s @ [?e]" "commitIndex ?s4 = getLastIndex (raftLog s) + 1"
      "outbox ?s4 = outbox s" "lastApplied ?s4 = lastApplied s"
      "onBlockCommitted ?s4 = onBlockCommitted s" "host ?s4 = host s"
      by (simp_all add: se)
    show ?thesis
      unfolding p
      using applyCommitted_returns [of ?s4] applyCommitted_throws [of ?s4]
        applyCommitted_no_callback [of ?s4] applyCommitted_run [of ?s4]
      by (simp only: applyCommitted_fields f) blast
  qed
  from first second show ?thesis by blast
qed

theorem sole_voter_elects_itself_witness:
  "length (allNodeIds solo1) = 1 \<and> role (startElection solo1) = Leader \<and>
   outbox (startElection solo1) = [] \<and>
   fst (proposeBlock (sampleBlock 1) (startElection solo1)) = None \<and>
   commitIndex (snd (proposeBlock (sampleBlock 1) (startElection solo1))) = 1 \<and>
   lastApplied (snd (proposeBlock (sampleBlock 1) (startElection solo1))) = 1 \<and>
   host (snd (proposeBlock (sampleBlock 1) (startElection solo1))) = 1"
proof -
  let ?p = "proposeBlock (sampleBlock 1) (startElection solo1)"
  have h: "length (allNodeIds solo1) = 1"
    by (simp add: allNodeIds_def solo1_def)
  have c: "commitIndex solo1 \<le> getLastIndex (raftLog solo1)"
    by (simp add: solo1_def)
  have v: "outbox solo1 = []" "getLastIndex (raftLog solo1) = 0" "lastApplied solo1 = 0"
    "onBlockCommitted solo1 = Some sampleCallback" "host solo1 = 0" "raftLog solo1 = []"
    "currentTerm solo1 = 1"
    by (simp_all add: solo1_def getLastIndex_def)
  have n: "appliedBlocks [\<lparr>term = 2, index = 1, block = sampleBlock 1\<rparr>] 0 1 = [sampleBlock 1]"
    by (simp add: appliedBlocks_def List.map_filter_def getEntry_def)
  have run: "runAll sampleCallback [sampleBlock 1] 0 = (None, 1)"
    by (simp add: sampleCallback_def sampleBlock_def)
  note t = sole_voter_elects_itself [OF h, of "sampleBlock 1"]
  from t c v have "(fst ?p, host (snd ?p)) =
      runAll sampleCallback
        (appliedBlocks [\<lparr>term = 2, index = 1, block = sampleBlock 1\<rparr>] 0 1) 0"
    by (simp add: numeral_2_eq_2)
  with n run have f: "fst ?p = None" "host (snd ?p) = 1"
    by simp_all
  from t c
  have "role (startElection solo1) = Leader"
    and "outbox (startElection solo1) = outbox solo1"
    and "commitIndex (snd ?p) = getLastIndex (raftLog solo1) + 1"
    and "fst ?p = None \<longrightarrow> lastApplied (snd ?p) = max (lastApplied solo1) (getLastIndex (raftLog solo1) + 1)"
    by blast+
  with h v f show ?thesis by simp
qed

section \<open>Storage\<close>

subsection \<open>Tables\<close>

text \<open>
  The tables of the schema that block application and the state root touch. A table is
  the list of its rows in storage order. \<open>world_state\<close> and \<open>tx_pool\<close> have a primary
  key (\<open>key\<close>, \<open>hash\<close>), \<open>blocks\<close> has the primary key \<open>height\<close> and a unique \<open>hash\<close>,
  and \<open>nonces\<close> maps a sender to its last nonce.
\<close>

record WorldStateRow =
  key :: string
  "value" :: string
  version :: nat
  updated_at :: nat
  updated_by :: string
  block_height :: nat

record PoolRow =
  pool_hash :: string
  raw :: string
  received :: nat
  priority :: nat

record MiniLedgerDB =
  world_state :: "WorldStateRow list"
  blocks :: "Block list"
  tx_pool :: "PoolRow list"
  nonces :: "string \<rightharpoonup> nat"

subsection \<open>State root\<close>

text \<open>
  \<open>SELECT key, value, version FROM world_state ORDER BY key ASC\<close>: the three columns
  of every row, ordered by key. Text is compared byte by byte, a proper prefix first,
  which is the order of \<open>string\<close>. The statement reads; the database it leaves is the one
  it found.
\<close>

definition selectStateRows :: "MiniLedgerDB \<Rightarrow> (string \<times> string \<times> nat) list \<times> MiniLedgerDB" where
  "selectStateRows d = (map (\<lambda>r. (key r, value r, version r)) (sort_key key (world_state d)), d)"

text \<open>A non-negative integer in a template literal: its decimal digits.\<close>

fun decimal :: "nat \<Rightarrow> string" where
  "decimal n =
     (if n < 10 then [''0123456789'' ! n]
      else decimal (n div 10) @ [''0123456789'' ! (n mod 10)])"

declare decimal.simps [simp del]

text \<open>\<open>Array.prototype.join\<close>: the separator stands between neighbours only.\<close>

fun join :: "string \<Rightarrow> string list \<Rightarrow> string" where
  "join sep [] = []"
| "join sep [x] = x"
| "join sep (x # y # ys) = x @ sep @ join sep (y # ys)"

definition serializeRow :: "string \<times> string \<times> nat \<Rightarrow> string" where
  "serializeRow r = (case r of (k, v, n) \<Rightarrow> k @ '':'' @ v @ '':'' @ decimal n)"

text \<open>
  \<open>computeStateRoot\<close>. The hash function \<open>sha256Hex\<close> comes from a library and is a
  parameter. The result is the root and the database after the call.
\<close>

definition computeStateRoot :: "(string \<Rightarrow> string) \<Rightarrow> MiniLedgerDB \<Rightarrow> string \<times> MiniLedgerDB" where
  "computeStateRoot sha256Hex d =
     (case selectStateRows d of
        (rows, d1) \<Rightarrow>
          if length rows = 0 then (replicate 64 (CHR ''0''), d1)
          else (sha256Hex (join ''|'' (map serializeRow rows)), d1))"

text \<open>
  What the state root reads of a state: the \<open>key\<close>, \<open>value\<close> and \<open>version\<close> of its
  rows, whatever their storage order.
\<close>

definition stateRows :: "MiniLedgerDB \<Rightarrow> (string \<times> string \<times> nat) set" where
  "stateRows d = set (map (\<lambda>r. (key r, value r, version r)) (world_state d))"

text \<open>The primary key of \<open>world_state\<close>: no two rows share a key.\<close>

definition keysUnique :: "MiniLedgerDB \<Rightarrow> bool" where
  "keysUnique d \<longleftrightarrow> distinct (map key (world_state d))"

definition sampleRow :: "string \<Rightarrow> string \<Rightarrow> nat \<Rightarrow> WorldStateRow" where
  "sampleRow k v n =
     \<lparr>key = k, value = v, version = n, updated_at = 0, updated_by = ''n1'', block_height = 1\<rparr>"

definition sampleDB :: "WorldStateRow list \<Rightarrow> MiniLedgerDB" where
  "sampleDB rows = \<lparr>world_state = rows, blocks = [], tx_pool = [], nonces = Map.empty\<rparr>"

text \<open>A stand-in for the hash function, for evaluating samples.\<close>

definition toyHash :: "string \<Rightarrow> string" where
  "toyHash s = ''#'' @ s"

subsection \<open>SQL queries\<close>

text \<open>
  A JavaScript string is a sequence of 16-bit code units; \<open>utf16\<close> gives the code units
  of a text of ASCII characters, one per character.
\<close>

type_synonym jsString = "16 word list"

definition utf16 :: "string \<Rightarrow> jsString" where
  "utf16 s = map (\<lambda>c. of_nat (of_char c)) s"

text \<open>
  \<open>String.prototype.trim\<close> removes the white space and the line terminators at both
  ends: tab, line feed, vertical tab, form feed, carriage return, space, no-break space
  (U+00A0), U+1680, U+2000 to U+200A, the line and paragraph separators (U+2028, U+2029),
  U+202F, U+205F, U+3000 and the byte order mark (U+FEFF).
\<close>

definition isWhiteSpace :: "16 word \<Rightarrow> bool" where
  "isWhiteSpace u \<longleftrightarrow>
     u \<in> set [0x0009, 0x000A, 0x000B, 0x000C, 0x000D, 0x0020, 0x00A0, 0x1680,
              0x2028, 0x2029, 0x202F, 0x205F, 0x3000, 0xFEFF] \<or>
     (0x2000 \<le> u \<and> u \<le> 0x200A)"

definition trim :: "jsString \<Rightarrow> jsString" where
  "trim s = rev (dropWhile isWhiteSpace (rev (dropWhile isWhiteSpace s)))"

definition startsWith :: "jsString \<Rightarrow> jsString \<Rightarrow> bool" where
  "startsWith s p \<longleftrightarrow> take (length p) s = p"

text \<open>
  A result row maps column names to values. The database driver's
  \<open>prepare(sql).all(...params)\<close> is a parameter: given the statement text, the
  parameters and the database it returns rows or raises, and leaves a database.
\<close>

type_synonym Row = "(string \<times> string) list"

type_synonym Driver = "jsString \<Rightarrow> string list \<Rightarrow> MiniLedgerDB \<Rightarrow> (error + Row list) \<times> MiniLedgerDB"

text \<open>
  \<open>query\<close>. \<open>String.prototype.toUpperCase\<close> follows the case mappings of the Unicode
  tables, which map letters beyond ASCII too and can change the length of a text; it is
  a parameter.
\<close>

definition query ::
  "(jsString \<Rightarrow> jsString) \<Rightarrow> Driver \<Rightarrow> jsString \<Rightarrow> string list \<Rightarrow> MiniLedgerDB \<Rightarrow>
   (error + Row list) \<times> MiniLedgerDB" where
  "query toUpperCase prepareAll sql params d =
     (let trimmed = toUpperCase (trim sql)
      in if \<not> startsWith trimmed (utf16 ''SELECT'')
         then (Inl (Error ''Only SELECT queries are allowed''), d)
         else prepareAll sql params d)"

text \<open>
  What is known of \<open>toUpperCase\<close> on every engine: a text of ASCII characters is mapped
  character by character, the letters \<open>a\<close> to \<open>z\<close> to \<open>A\<close> to \<open>Z\<close> and every other
  character to itself.
\<close>

definition asciiUpper :: "16 word \<Rightarrow> 16 word" where
  "asciiUpper u = (if 0x61 \<le> u \<and> u \<le> 0x7A then u - 0x20 else u)"

definition isAscii :: "16 word \<Rightarrow> bool" where
  "isAscii u \<longleftrightarrow> u < 0x80"

definition upperOnAscii :: "(jsString \<Rightarrow> jsString) \<Rightarrow> bool" where
  "upperOnAscii toUpperCase \<longleftrightarrow> (\<forall>s. list_all isAscii s \<longrightarrow> toUpperCase s = map asciiUpper s)"

text \<open>
  A driver reads on what passes the test of \<open>query\<close> when it leaves the database as it
  found it for every statement whose text, trimmed and upper-cased, begins with
  \<open>SELECT\<close>.
\<close>

definition selectReads :: "(jsString \<Rightarrow> jsString) \<Rightarrow> Driver \<Rightarrow> bool" where
  "selectReads toUpperCase prepareAll \<longleftrightarrow>
     (\<forall>sql params d. startsWith (toUpperCase (trim sql)) (utf16 ''SELECT'') \<longrightarrow>
                     snd (prepareAll sql params d) = d)"

text \<open>
  A stand-in for \<open>toUpperCase\<close>, for evaluating samples: the ASCII letters, and the long
  s (U+017F), whose upper-case form is \<open>S\<close>.
\<close>

definition sampleToUpperCase :: "jsString \<Rightarrow> jsString" where
  "sampleToUpperCase s = map (\<lambda>u. if u = 0x017F then 0x53 else asciiUpper u) s"

text \<open>A driver that runs every statement as a read answering one row.\<close>

definition readingDriver :: Driver where
  "readingDriver sql params d = (Inr [[(''x'', ''1'')]], d)"

subsection \<open>Atomic block application\<close>

text \<open>
  What the node holds besides the database: the in-memory chain. A step of block
  application returns the state it leaves and, when it throws, the error.
\<close>

record Node =
  db :: MiniLedgerDB
  chain :: "Block list"

type_synonym Outcome = "error option \<times> Node"

text \<open>
  \<open>applyTransaction(tx, height)\<close> and \<open>chain.appendBlock(block)\<close> have no code in the
  sources and are parameters: \<open>applyTransaction\<close> may change the node and may throw,
  \<open>appendBlock\<close> returns the new chain or throws. The first loop of the unit applies the
  transactions in order and stops at the first that throws.
\<close>

type_synonym ApplyTransaction = "Transaction \<Rightarrow> nat \<Rightarrow> Node \<Rightarrow> Outcome"

type_synonym AppendBlock = "Block \<Rightarrow> Block list \<Rightarrow> error + Block list"

fun applyTransactions :: "ApplyTransaction \<Rightarrow> Transaction list \<Rightarrow> nat \<Rightarrow> Node \<Rightarrow> Outcome" where
  "applyTransactions applyTransaction [] h s = (None, s)"
| "applyTransactions applyTransaction (tx # txs) h s =
     (case applyTransaction tx h s of
        (Some e, s1) \<Rightarrow> (Some e, s1)
      | (None, s1) \<Rightarrow> applyTransactions applyTransaction txs h s1)"

text \<open>
  Modelled from the spec: \<open>blockStore.insert\<close>, \<open>txStore.removePending\<close> and
  \<open>txStore.updateNonce\<close> have no code in the sources. \<open>insert\<close>, here
  \<open>insert_block\<close>, appends the block to the \<open>blocks\<close> table and fails on a height or
  hash the table already holds (primary key, unique index); \<open>removePending\<close> deletes
  the pool rows with the given hashes; \<open>updateNonce\<close> records the nonce as the sender's
  last.
\<close>

definition insert_block :: "Block \<Rightarrow> MiniLedgerDB \<Rightarrow> error + MiniLedgerDB" where
  "insert_block b d =
     (if list_ex (\<lambda>x. height x = height b \<or> hash x = hash b) (blocks d)
      then Inl (Error ''constraint failed'')
      else Inr (d\<lparr>blocks := blocks d @ [b]\<rparr>))"

definition removePending :: "string list \<Rightarrow> MiniLedgerDB \<Rightarrow> MiniLedgerDB" where
  "removePending hashes d = d\<lparr>tx_pool := filter (\<lambda>r. pool_hash r \<notin> set hashes) (tx_pool d)\<rparr>"

definition updateNonce :: "string \<Rightarrow> nat \<Rightarrow> MiniLedgerDB \<Rightarrow> MiniLedgerDB" where
  "updateNonce sndr n d = d\<lparr>nonces := (nonces d)(sndr \<mapsto> n)\<rparr>"

text \<open>The last loop of the unit: the nonce of every transaction's sender, in order.\<close>

definition updateNonces :: "Transaction list \<Rightarrow> MiniLedgerDB \<Rightarrow> MiniLedgerDB" where
  "updateNonces txs d = foldl (\<lambda>d1 tx. updateNonce (sender tx) (nonce tx) d1) d txs"

text \<open>The callback handed to \<open>transaction\<close>, statement by statement.\<close>

definition applyBlockBody :: "ApplyTransaction \<Rightarrow> AppendBlock \<Rightarrow> Block \<Rightarrow> Node \<Rightarrow> Outcome" where
  "applyBlockBody applyTransaction appendBlock b s =
     (case applyTransactions applyTransaction (transactions b) (height b) s of
        (Some e, s1) \<Rightarrow> (Some e, s1)
      | (None, s1) \<Rightarrow>
          (case appendBlock b (chain s1) of
             Inl e \<Rightarrow> (Some e, s1)
           | Inr c \<Rightarrow>
               (case insert_block b (db s1) of
                  Inl e \<Rightarrow> (Some e, s1\<lparr>chain := c\<rparr>)
                | Inr d1 \<Rightarrow>
                    (None, s1\<lparr>chain := c,
                              db := updateNonces (transactions b)
                                      (removePending (map tx_hash (transactions b)) d1)\<rparr>))))"

text \<open>
  The driver's \<open>transaction(fn)()\<close>: \<open>BEGIN IMMEDIATE\<close>, the callback, \<open>COMMIT\<close>, and
  \<open>ROLLBACK\<close> when the callback throws. A rollback restores the database; the error is
  thrown on, and what the callback did outside the database stays.
\<close>

definition transaction :: "(Node \<Rightarrow> Outcome) \<Rightarrow> Node \<Rightarrow> Outcome" where
  "transaction fn s =
     (case fn s of
        (None, s1) \<Rightarrow> (None, s1)
      | (Some e, s1) \<Rightarrow> (Some e, s1\<lparr>db := db s\<rparr>))"

definition applyBlockAtomically :: "ApplyTransaction \<Rightarrow> AppendBlock \<Rightarrow> Block \<Rightarrow> Node \<Rightarrow> Outcome" where
  "applyBlockAtomically applyTransaction appendBlock b s =
     transaction (applyBlockBody applyTransaction appendBlock b) s"

text \<open>
  In the words of the claim. The node after every transaction of a list has been applied
  in order, each to what the one before left; that none of them throws when they are
  applied so; and the nonce the nonce table holds for a sender after the block: that of
  the sender's last transaction in the block, if it has one.
\<close>

definition payloadsApplied :: "ApplyTransaction \<Rightarrow> nat \<Rightarrow> Node \<Rightarrow> Transaction list \<Rightarrow> Node" where
  "payloadsApplied applyTransaction h s txs = foldl (\<lambda>s1 tx. snd (applyTransaction tx h s1)) s txs"

definition noneThrows :: "ApplyTransaction \<Rightarrow> nat \<Rightarrow> Node \<Rightarrow> Transaction list \<Rightarrow> bool" where
  "noneThrows applyTransaction h s txs \<longleftrightarrow>
     list_all
       (\<lambda>i. fst (applyTransaction (txs ! i) h (payloadsApplied applyTransaction h s (take i txs))) = None)
       [0 ..< length txs]"

definition lastNonce :: "Transaction list \<Rightarrow> string \<Rightarrow> nat option" where
  "lastNonce txs a = map_option nonce (find (\<lambda>tx. sender tx = a) (rev txs))"

text \<open>
  Sample parameters: a transaction writes its payload as a new world-state row and is
  refused when the payload is empty; a block is appended to the chain as it is.
\<close>

definition sampleApplyTransaction :: ApplyTransaction where
  "sampleApplyTransaction tx h s =
     (if payload tx = [] then (Some (Error ''empty payload''), s)
      else (None, s\<lparr>db := (db s)\<lparr>world_state := world_state (db s) @
                                     [\<lparr>key = payload tx, value = payload tx, version = 1,
                                       updated_at = tx_timestamp tx, updated_by = sender tx,
                                       block_height = h\<rparr>]\<rparr>\<rparr>))"

definition sampleAppendBlock :: AppendBlock where
  "sampleAppendBlock b c = Inr (c @ [b])"

definition sampleTx :: "string \<Rightarrow> string \<Rightarrow> nat \<Rightarrow> Transaction" where
  "sampleTx h p n =
     \<lparr>tx_hash = h, tx_type = ''state:set'', sender = ''alice'', nonce = n, tx_timestamp = 0,
      payload = p, tx_signature = ''sig''\<rparr>"

definition sampleNode :: Node where
  "sampleNode =
     \<lparr>db = \<lparr>world_state = [], blocks = [],
            tx_pool = [\<lparr>pool_hash = ''t1'', raw = ''r1'', received = 0, priority = 0\<rparr>,
                       \<lparr>pool_hash = ''t2'', raw = ''r2'', received = 1, priority = 0\<rparr>],
            nonces = Map.empty\<rparr>,
      chain = []\<rparr>"

definition sampleBlockOf :: "Transaction list \<Rightarrow> Block" where
  "sampleBlockOf txs = (sampleBlock 1)\<lparr>transactions := txs\<rparr>"

subsection \<open>Properties of the state root\<close>

lemma sort_key_unique_keys:
  fixes xs ys :: "(string \<times> string \<times> nat) list"
  assumes dx: "distinct (map fst xs)" and dy: "distinct (map fst ys)"
    and eq: "set xs = set ys"
  shows "sort_key fst xs = sort_key fst ys"
proof (rule properties_for_sort_key)
  from dx dy have "distinct xs" "distinct ys"
    by (simp_all add: distinct_map)
  with eq have m: "mset xs = mset ys"
    by (simp add: set_eq_iff_mset_eq_distinct)
  then show "mset (sort_key fst ys) = mset xs"
    by simp
  show "sorted (map fst (sort_key fst ys))"
    by simp
  show "filter (\<lambda>x. fst k = fst x) (sort_key fst ys) = filter (\<lambda>x. fst k = fst x) xs"
    if "k \<in> set (sort_key fst ys)" for k
  proof -
    from that have ky: "k \<in> set ys" by simp
    with eq have kx: "k \<in> set xs" by simp
    have one: "filter (\<lambda>x. fst k = fst x) zs = [k]"
      if "distinct (map fst zs)" "k \<in> set zs" for zs :: "(string \<times> string \<times> nat) list"
      using that
    proof (induction zs)
      case Nil
      then show ?case by simp
    next
      case (Cons z zs)
      then show ?case
        by (cases "z = k") (auto simp: image_iff filter_empty_conv)
    qed
    have "mset (map fst (sort_key fst ys)) = mset (map fst ys)"
      by simp
    from mset_eq_imp_distinct_iff [OF this] dy have ds: "distinct (map fst (sort_key fst ys))"
      by blast
    from one [OF ds that] one [OF dx kx] show ?thesis by simp
  qed
qed

lemma insort_key_map:
  "insort_key f (g x) (map g xs) = map g (insort_key (\<lambda>a. f (g a)) x xs)"
  by (induction xs) auto

lemma sort_key_map:
  "sort_key f (map g xs) = map g (sort_key (\<lambda>a. f (g a)) xs)"
  by (induction xs) (auto simp: insort_key_map)

lemma selectStateRows_sorted:
  "fst (selectStateRows d) = sort_key fst (map (\<lambda>r. (key r, value r, version r)) (world_state d))"
  by (simp add: selectStateRows_def sort_key_map)

lemma selectStateRows_same_rows:
  assumes "keysUnique d" "keysUnique d'" "stateRows d = stateRows d'"
  shows "fst (selectStateRows d) = fst (selectStateRows d')"
proof -
  let ?c = "\<lambda>r. (key r, value r, version r)"
  have k: "map fst (map ?c (world_state e)) = map key (world_state e)" for e
    by simp
  have "sort_key fst (map ?c (world_state d)) = sort_key fst (map ?c (world_state d'))"
  proof (rule sort_key_unique_keys)
    show "distinct (map fst (map ?c (world_state d)))"
      using assms(1) unfolding k keysUnique_def .
    show "distinct (map fst (map ?c (world_state d')))"
      using assms(2) unfolding k keysUnique_def .
    show "set (map ?c (world_state d)) = set (map ?c (world_state d'))"
      using assms(3) by (simp add: stateRows_def)
  qed
  then show ?thesis
    by (simp only: selectStateRows_sorted)
qed

lemma computeStateRoot_rows:
  "computeStateRoot sha256Hex d =
     (if fst (selectStateRows d) = [] then replicate 64 (CHR ''0'')
      else sha256Hex (join ''|'' (map serializeRow (fst (selectStateRows d)))), d)"
  by (simp add: computeStateRoot_def selectStateRows_def)

text \<open>
  C2. \<open>computeStateRoot\<close> leaves the database as it found it. On an empty world state
  it returns 64 zero characters; otherwise it returns the hash of the rows in ascending
  key order, each written \<open>key:value:version\<close>, joined by \<open>|\<close>. Two states that hold
  the same rows (same key, value and version, keys unique) get the same root, in
  whatever order the rows are stored.
\<close>

theorem computeStateRoot_deterministic:
  "snd (computeStateRoot sha256Hex d) = d \<and>
   serializeRow (k, v, n) = k @ '':'' @ v @ '':'' @ decimal n \<and>
   (world_state d = [] \<longrightarrow> fst (computeStateRoot sha256Hex d) = replicate 64 (CHR ''0'')) \<and>
   (world_state d \<noteq> [] \<longrightarrow>
      (\<exists>rows. mset rows = mset (map (\<lambda>r. (key r, value r, version r)) (world_state d)) \<and>
              sorted (map fst rows) \<and>
              fst (computeStateRoot sha256Hex d) = sha256Hex (join ''|'' (map serializeRow rows)))) \<and>
   (keysUnique d \<and> keysUnique d' \<and> stateRows d = stateRows d' \<longrightarrow>
      fst (computeStateRoot sha256Hex d) = fst (computeStateRoot sha256Hex d'))"
proof (intro conjI impI)
  show "snd (computeStateRoot sha256Hex d) = d"
    by (simp add: computeStateRoot_rows)
  show "serializeRow (k, v, n) = k @ '':'' @ v @ '':'' @ decimal n"
    by (simp add: serializeRow_def)
  show "fst (computeStateRoot sha256Hex d) = replicate 64 (CHR ''0'')" if "world_state d = []"
    using that by (simp add: computeStateRoot_rows selectStateRows_def)
  show "\<exists>rows. mset rows = mset (map (\<lambda>r. (key r, value r, version r)) (world_state d)) \<and>
              sorted (map fst rows) \<and>
              fst (computeStateRoot sha256Hex d) = sha256Hex (join ''|'' (map serializeRow rows))"
    if ne: "world_state d \<noteq> []"
  proof (intro exI conjI)
    let ?rows = "fst (selectStateRows d)"
    show "mset ?rows = mset (map (\<lambda>r. (key r, value r, version r)) (world_state d))"
      by (simp only: selectStateRows_sorted mset_sort)
    show "sorted (map fst ?rows)"
      by (simp only: selectStateRows_sorted sorted_sort_key)
    from ne have "length ?rows \<noteq> 0"
      by (simp add: selectStateRows_def)
    then have "?rows \<noteq> []"
      by (simp only: length_0_conv not_False_eq_True)
    then show "fst (computeStateRoot sha256Hex d) = sha256Hex (join ''|'' (map serializeRow ?rows))"
      by (simp add: computeStateRoot_rows)
  qed
  show "fst (computeStateRoot sha256Hex d) = fst (computeStateRoot sha256Hex d')"
    if "keysUnique d \<and> keysUnique d' \<and> stateRows d = stateRows d'"
  proof -
    from that have "fst (selectStateRows d) = fst (selectStateRows d')"
      by (intro selectStateRows_same_rows) simp_all
    then show ?thesis
      by (simp add: computeStateRoot_rows)
  qed
qed

theorem computeStateRoot_deterministic_witness:
  "keysUnique (sampleDB [sampleRow ''b'' ''2'' 1, sampleRow ''a'' ''1'' 12]) \<and>
   keysUnique (sampleDB [sampleRow ''a'' ''1'' 12, sampleRow ''b'' ''2'' 1]) \<and>
   stateRows (sampleDB [sampleRow ''b'' ''2'' 1, sampleRow ''a'' ''1'' 12]) =
     stateRows (sampleDB [sampleRow ''a'' ''1'' 12, sampleRow ''b'' ''2'' 1]) \<and>
   fst (computeStateRoot toyHash (sampleDB [sampleRow ''b'' ''2'' 1, sampleRow ''a'' ''1'' 12])) =
     fst (computeStateRoot toyHash (sampleDB [sampleRow ''a'' ''1'' 12, sampleRow ''b'' ''2'' 1])) \<and>
   fst (computeStateRoot toyHash (sampleDB [sampleRow ''b'' ''2'' 1, sampleRow ''a'' ''1'' 12])) =
     toyHash ''a:1:12|b:2:1'' \<and>
   fst (computeStateRoot toyHash (sampleDB [])) = replicate 64 (CHR ''0'')"
proof -
  let ?d = "sampleDB [sampleRow ''b'' ''2'' 1, sampleRow ''a'' ''1'' 12]"
  let ?d' = "sampleDB [sampleRow ''a'' ''1'' 12, sampleRow ''b'' ''2'' 1]"
  have u: "keysUnique ?d" "keysUnique ?d'"
    by (simp_all add: keysUnique_def sampleDB_def sampleRow_def)
  have r: "stateRows ?d = stateRows ?d'"
    by (auto simp: stateRows_def sampleDB_def sampleRow_def)
  have e: "world_state (sampleDB []) = []"
    by (simp add: sampleDB_def)
  have v: "fst (computeStateRoot toyHash ?d') = toyHash ''a:1:12|b:2:1''"
    by (simp add: computeStateRoot_def selectStateRows_def sampleDB_def sampleRow_def
        serializeRow_def decimal.simps)
  from computeStateRoot_deterministic [of toyHash ?d _ _ _ ?d'] u r
  have "fst (computeStateRoot toyHash ?d) = fst (computeStateRoot toyHash ?d')"
    by blast
  moreover from computeStateRoot_deterministic [of toyHash "sampleDB []" _ _ _ "sampleDB []"] e
  have "fst (computeStateRoot toyHash (sampleDB [])) = replicate 64 (CHR ''0'')"
    by blast
  ultimately show ?thesis
    using u r v by simp
qed

subsection \<open>Properties of queries\<close>

lemma utf16_SELECT: "utf16 ''SELECT'' = [0x53, 0x45, 0x4C, 0x45, 0x43, 0x54]"
  by (simp add: utf16_def)

lemma asciiUpper_whiteSpace: "isWhiteSpace u \<Longrightarrow> asciiUpper u = u"
  by (auto simp: isWhiteSpace_def asciiUpper_def word_le_nat_alt)

lemma select_no_whiteSpace: "u \<in> set (utf16 ''SELECT'') \<Longrightarrow> \<not> isWhiteSpace u"
  by (auto simp: utf16_SELECT isWhiteSpace_def word_le_nat_alt)

lemma trim_split:
  "\<exists>v. dropWhile isWhiteSpace s = trim s @ v \<and> (\<forall>u \<in> set v. isWhiteSpace u)"
proof -
  let ?t = "dropWhile isWhiteSpace s"
  have "?t = rev (dropWhile isWhiteSpace (rev ?t)) @ rev (takeWhile isWhiteSpace (rev ?t))"
    unfolding rev_append [symmetric] by simp
  then have "?t = trim s @ rev (takeWhile isWhiteSpace (rev ?t))"
    by (simp only: trim_def)
  moreover have "\<forall>u \<in> set (rev (takeWhile isWhiteSpace (rev ?t))). isWhiteSpace u"
    by (auto dest: set_takeWhileD)
  ultimately show ?thesis by blast
qed

lemma prefix_select_append:
  assumes v: "\<forall>u \<in> set v. isWhiteSpace u"
  shows "take 6 (map asciiUpper (t @ v)) = utf16 ''SELECT'' \<longleftrightarrow>
         take 6 (map asciiUpper t) = utf16 ''SELECT''"
proof (cases "length t \<ge> 6")
  case True
  then show ?thesis by simp
next
  case False
  then have short: "length t < 6" by simp
  have six: "length (utf16 ''SELECT'') = 6"
    by (simp add: utf16_def)
  have r: "take 6 (map asciiUpper t) \<noteq> utf16 ''SELECT''"
  proof
    assume "take 6 (map asciiUpper t) = utf16 ''SELECT''"
    then have "length (take 6 (map asciiUpper t)) = 6"
      by (simp only: six)
    with short show False by simp
  qed
  have l: "take 6 (map asciiUpper (t @ v)) \<noteq> utf16 ''SELECT''"
  proof
    assume eq: "take 6 (map asciiUpper (t @ v)) = utf16 ''SELECT''"
    let ?w = "take (6 - length t) (map asciiUpper v)"
    from eq have parts: "map asciiUpper t @ ?w = utf16 ''SELECT''"
      using short by simp
    then have "length (map asciiUpper t @ ?w) = 6"
      using six by simp
    with short have "?w \<noteq> []" by auto
    then obtain x where x: "x \<in> set ?w" by (cases ?w) auto
    then have "x \<in> set (map asciiUpper v)" by (rule in_set_takeD)
    then obtain u where u: "u \<in> set v" "x = asciiUpper u" by auto
    with v have ws: "isWhiteSpace x" by (simp add: asciiUpper_whiteSpace)
    from x have "x \<in> set (map asciiUpper t @ ?w)" by simp
    with parts have "x \<in> set (utf16 ''SELECT'')" by simp
    with ws show False by (simp add: select_no_whiteSpace)
  qed
  from l r show ?thesis by simp
qed

lemma select_gate_ascii:
  assumes up: "upperOnAscii toUpperCase" and ascii: "list_all isAscii (trim sql)"
  shows "startsWith (toUpperCase (trim sql)) (utf16 ''SELECT'') \<longleftrightarrow>
         map asciiUpper (take 6 (dropWhile isWhiteSpace sql)) = utf16 ''SELECT''"
proof -
  obtain v where s: "dropWhile isWhiteSpace sql = trim sql @ v" and v: "\<forall>u \<in> set v. isWhiteSpace u"
    using trim_split by blast
  have six: "length (utf16 ''SELECT'') = 6"
    by (simp add: utf16_def)
  from up ascii have "toUpperCase (trim sql) = map asciiUpper (trim sql)"
    by (simp add: upperOnAscii_def)
  then have "startsWith (toUpperCase (trim sql)) (utf16 ''SELECT'') \<longleftrightarrow>
             take 6 (map asciiUpper (trim sql)) = utf16 ''SELECT''"
    by (simp only: startsWith_def six)
  also have "\<dots> \<longleftrightarrow> take 6 (map asciiUpper (trim sql @ v)) = utf16 ''SELECT''"
    using prefix_select_append [OF v, of "trim sql"] by simp
  also have "\<dots> \<longleftrightarrow> map asciiUpper (take 6 (dropWhile isWhiteSpace sql)) = utf16 ''SELECT''"
    by (simp only: s take_map)
  finally show ?thesis .
qed

lemma sampleToUpperCase_ascii: "upperOnAscii sampleToUpperCase"
proof -
  have "(if u = 0x017F then 0x53 else asciiUpper u) = asciiUpper u" if "isAscii u" for u :: "16 word"
    using that by (auto simp: isAscii_def)
  then show ?thesis
    by (auto simp: upperOnAscii_def sampleToUpperCase_def list_all_iff)
qed

lemma readingDriver_reads: "selectReads toUpperCase readingDriver"
  by (simp add: selectReads_def readingDriver_def)

text \<open>
  C4, as amended. \<open>query\<close> decides on the text alone: the statement passes when
  \<open>sql.trim().toUpperCase()\<close> begins with \<open>SELECT\<close>. A statement that does not pass
  raises \<open>Only SELECT queries are allowed\<close>; the driver is not called (the result does
  not depend on it) and the database is unchanged. A statement that passes is handed to
  the driver, and the driver's result is the result. So, with a driver that reads on
  what passes, \<open>query\<close> never changes the database, and a statement that the driver
  would run with a change to the database is refused. For a text that is ASCII once
  trimmed, the test passes exactly when the six characters after the leading white space
  are the letters of \<open>select\<close> in either case.
\<close>

theorem query_select_gate:
  "(\<not> startsWith (toUpperCase (trim sql)) (utf16 ''SELECT'') \<longrightarrow>
      query toUpperCase prepareAll sql params d =
        (Inl (Error ''Only SELECT queries are allowed''), d)) \<and>
   (startsWith (toUpperCase (trim sql)) (utf16 ''SELECT'') \<longrightarrow>
      query toUpperCase prepareAll sql params d = prepareAll sql params d) \<and>
   (selectReads toUpperCase prepareAll \<longrightarrow>
      snd (query toUpperCase prepareAll sql params d) = d \<and>
      (snd (prepareAll sql params d) \<noteq> d \<longrightarrow>
         query toUpperCase prepareAll sql params d =
           (Inl (Error ''Only SELECT queries are allowed''), d))) \<and>
   (upperOnAscii toUpperCase \<and> list_all isAscii (trim sql) \<longrightarrow>
      (startsWith (toUpperCase (trim sql)) (utf16 ''SELECT'') \<longleftrightarrow>
         map asciiUpper (take 6 (dropWhile isWhiteSpace sql)) = utf16 ''SELECT''))"
proof (intro conjI impI)
  assume "\<not> startsWith (toUpperCase (trim sql)) (utf16 ''SELECT'')"
  then show "query toUpperCase prepareAll sql params d =
      (Inl (Error ''Only SELECT queries are allowed''), d)"
    by (simp add: query_def Let_def)
next
  assume "startsWith (toUpperCase (trim sql)) (utf16 ''SELECT'')"
  then show "query toUpperCase prepareAll sql params d = prepareAll sql params d"
    by (simp add: query_def Let_def)
next
  assume "selectReads toUpperCase prepareAll"
  then show "snd (query toUpperCase prepareAll sql params d) = d"
    by (simp add: query_def Let_def selectReads_def)
next
  assume "selectReads toUpperCase prepareAll" and "snd (prepareAll sql params d) \<noteq> d"
  then have "\<not> startsWith (toUpperCase (trim sql)) (utf16 ''SELECT'')"
    by (auto simp: selectReads_def)
  then show "query toUpperCase prepareAll sql params d =
      (Inl (Error ''Only SELECT queries are allowed''), d)"
    by (simp add: query_def Let_def)
next
  assume "upperOnAscii toUpperCase \<and> list_all isAscii (trim sql)"
  then show "startsWith (toUpperCase (trim sql)) (utf16 ''SELECT'') \<longleftrightarrow>
      map asciiUpper (take 6 (dropWhile isWhiteSpace sql)) = utf16 ''SELECT''"
    by (simp add: select_gate_ascii)
qed

theorem query_select_gate_witness:
  "\<not> startsWith (sampleToUpperCase (trim (utf16 ''  delete from world_state''))) (utf16 ''SELECT'') \<and>
   query sampleToUpperCase readingDriver (utf16 ''  delete from world_state'') []
       (sampleDB [sampleRow ''a'' ''1'' 1]) =
     (Inl (Error ''Only SELECT queries are allowed''), sampleDB [sampleRow ''a'' ''1'' 1]) \<and>
   startsWith (sampleToUpperCase (trim (0xFEFF # utf16 '' select key from world_state '')))
     (utf16 ''SELECT'') \<and>
   query sampleToUpperCase readingDriver (0xFEFF # utf16 '' select key from world_state '') []
       (sampleDB [sampleRow ''a'' ''1'' 1]) =
     (Inr [[(''x'', ''1'')]], sampleDB [sampleRow ''a'' ''1'' 1]) \<and>
   startsWith (sampleToUpperCase (trim (0x017F # utf16 ''elect 1''))) (utf16 ''SELECT'') \<and>
   query sampleToUpperCase readingDriver (0x017F # utf16 ''elect 1'') []
       (sampleDB [sampleRow ''a'' ''1'' 1]) =
     (Inr [[(''x'', ''1'')]], sampleDB [sampleRow ''a'' ''1'' 1]) \<and>
   selectReads sampleToUpperCase readingDriver \<and>
   upperOnAscii sampleToUpperCase \<and>
   list_all isAscii (trim (utf16 '' Select 1 '')) \<and>
   map asciiUpper (take 6 (dropWhile isWhiteSpace (utf16 '' Select 1 ''))) = utf16 ''SELECT'' \<and>
   startsWith (sampleToUpperCase (trim (utf16 '' Select 1 ''))) (utf16 ''SELECT'')"
proof -
  let ?bad = "utf16 ''  delete from world_state''"
  let ?good = "0xFEFF # utf16 '' select key from world_state ''"
  let ?d = "sampleDB [sampleRow ''a'' ''1'' 1]"
  have a: "\<not> startsWith (sampleToUpperCase (trim ?bad)) (utf16 ''SELECT'')"
    by code_simp
  have b: "startsWith (sampleToUpperCase (trim ?good)) (utf16 ''SELECT'')"
    by code_simp
  have b': "startsWith (sampleToUpperCase (trim (0x017F # utf16 ''elect 1''))) (utf16 ''SELECT'')"
    by code_simp
  have c: "list_all isAscii (trim (utf16 '' Select 1 ''))"
    by code_simp
  have e: "map asciiUpper (take 6 (dropWhile isWhiteSpace (utf16 '' Select 1 ''))) = utf16 ''SELECT''"
    by code_simp
  from query_select_gate [of sampleToUpperCase ?bad readingDriver "[]" ?d] a
  have "query sampleToUpperCase readingDriver ?bad [] ?d =
     (Inl (Error ''Only SELECT queries are allowed''), ?d)"
    by blast
  moreover
  from query_select_gate [of sampleToUpperCase ?good readingDriver "[]" ?d] b
  have "query sampleToUpperCase readingDriver ?good [] ?d = readingDriver ?good [] ?d"
    by blast
  moreover
  from query_select_gate [of sampleToUpperCase "0x017F # utf16 ''elect 1''" readingDriver "[]" ?d] b'
  have "query sampleToUpperCase readingDriver (0x017F # utf16 ''elect 1'') [] ?d =
          readingDriver (0x017F # utf16 ''elect 1'') [] ?d"
    by blast
  moreover
  from query_select_gate [of sampleToUpperCase "utf16 '' Select 1 ''" readingDriver "[]" ?d]
    sampleToUpperCase_ascii c e
  have "startsWith (sampleToUpperCase (trim (utf16 '' Select 1 ''))) (utf16 ''SELECT'')"
    by blast
  ultimately show ?thesis
    using a b b' c e sampleToUpperCase_ascii readingDriver_reads by (simp add: readingDriver_def)
qed

text \<open>
  The claim as it was stated fails for a read-only statement that does not begin with
  \<open>SELECT\<close>: a \<open>WITH ... SELECT\<close> reads only (the driver would answer a row and leave
  the database alone), and \<open>query\<close> raises instead of returning its rows. The text is
  ASCII, so this is so for every \<open>toUpperCase\<close> that maps ASCII text as the engines do.
\<close>

lemma query_refuses_with_select:
  assumes "upperOnAscii toUpperCase"
  shows "query toUpperCase prepareAll (utf16 ''WITH t AS (SELECT 1 AS x) SELECT x FROM t'') params d =
           (Inl (Error ''Only SELECT queries are allowed''), d)"
proof -
  let ?q = "utf16 ''WITH t AS (SELECT 1 AS x) SELECT x FROM t''"
  have "list_all isAscii (trim ?q)"
    by code_simp
  moreover have "map asciiUpper (take 6 (dropWhile isWhiteSpace ?q)) \<noteq> utf16 ''SELECT''"
    by code_simp
  ultimately have "\<not> startsWith (toUpperCase (trim ?q)) (utf16 ''SELECT'')"
    using assms by (simp add: select_gate_ascii)
  then show ?thesis
    by (simp add: query_def Let_def)
qed

theorem query_rejects_read_only_counterexample:
  "readingDriver (utf16 ''WITH t AS (SELECT 1 AS x) SELECT x FROM t'') [] (sampleDB []) =
     (Inr [[(''x'', ''1'')]], sampleDB []) \<and>
   query sampleToUpperCase readingDriver (utf16 ''WITH t AS (SELECT 1 AS x) SELECT x FROM t'') []
       (sampleDB []) =
     (Inl (Error ''Only SELECT queries are allowed''), sampleDB [])"
  using query_refuses_with_select [OF sampleToUpperCase_ascii, of readingDriver "[]" "sampleDB []"]
  by (simp add: readingDriver_def)

subsection \<open>Properties of block application\<close>

lemma payloadsApplied_Cons:
  "payloadsApplied applyTransaction h s (tx # txs) =
   payloadsApplied applyTransaction h (snd (applyTransaction tx h s)) txs"
  by (simp add: payloadsApplied_def)

lemma payloadsApplied_append:
  "payloadsApplied applyTransaction h s (pre @ post) =
   payloadsApplied applyTransaction h (payloadsApplied applyTransaction h s pre) post"
  by (simp add: payloadsApplied_def)

lemma noneThrows_Cons:
  "noneThrows applyTransaction h s (tx # txs) \<longleftrightarrow>
     fst (applyTransaction tx h s) = None \<and>
     noneThrows applyTransaction h (snd (applyTransaction tx h s)) txs"
proof -
  have "[0 ..< length (tx # txs)] = 0 # [Suc 0 ..< Suc (length txs)]"
    by (metis length_Cons upt_conv_Cons zero_less_Suc)
  also have "[Suc 0 ..< Suc (length txs)] = map Suc [0 ..< length txs]"
    by (simp only: map_Suc_upt)
  finally have e: "[0 ..< length (tx # txs)] = 0 # map Suc [0 ..< length txs]" .
  show ?thesis
    unfolding noneThrows_def e
    by (simp add: list.pred_map o_def payloadsApplied_def)
qed

lemma applyTransactions_ok:
  "noneThrows applyTransaction h s txs \<Longrightarrow>
   applyTransactions applyTransaction txs h s = (None, payloadsApplied applyTransaction h s txs)"
proof (induction txs arbitrary: s)
  case Nil
  then show ?case by (simp add: payloadsApplied_def)
next
  case (Cons tx txs)
  obtain t s1 where a: "applyTransaction tx h s = (t, s1)"
    by (cases "applyTransaction tx h s")
  with Cons.prems have t: "t = None" and r: "noneThrows applyTransaction h s1 txs"
    by (simp_all add: noneThrows_Cons)
  from Cons.IH [OF r] a t show ?case
    by (simp add: payloadsApplied_Cons)
qed

lemma applyTransactions_None:
  "fst (applyTransactions applyTransaction txs h s) = None \<Longrightarrow>
   noneThrows applyTransaction h s txs"
proof (induction txs arbitrary: s)
  case Nil
  then show ?case by (simp add: noneThrows_def)
next
  case (Cons tx txs)
  obtain t s1 where a: "applyTransaction tx h s = (t, s1)"
    by (cases "applyTransaction tx h s")
  with Cons.prems have t: "t = None"
    by (cases t) simp_all
  with a Cons.prems have "fst (applyTransactions applyTransaction txs h s1) = None"
    by simp
  then have "noneThrows applyTransaction h s1 txs"
    by (rule Cons.IH)
  with a t show ?case
    by (simp add: noneThrows_Cons)
qed

lemma applyTransactions_fails:
  "noneThrows applyTransaction h s pre \<Longrightarrow>
   applyTransaction tx h (payloadsApplied applyTransaction h s pre) = (Some e, s2) \<Longrightarrow>
   applyTransactions applyTransaction (pre @ tx # post) h s = (Some e, s2)"
proof (induction pre arbitrary: s)
  case Nil
  then show ?case by (simp add: payloadsApplied_def)
next
  case (Cons p pre)
  obtain t s1 where a: "applyTransaction p h s = (t, s1)"
    by (cases "applyTransaction p h s")
  with Cons.prems(1) have t: "t = None" and r: "noneThrows applyTransaction h s1 pre"
    by (simp_all add: noneThrows_Cons)
  from Cons.prems(2) a
  have "applyTransaction tx h (payloadsApplied applyTransaction h s1 pre) = (Some e, s2)"
    by (simp add: payloadsApplied_Cons)
  with Cons.IH [OF r] a t show ?case
    by simp
qed

lemma updateNonces_frame:
  "world_state (updateNonces txs d) = world_state d \<and>
   blocks (updateNonces txs d) = blocks d \<and>
   tx_pool (updateNonces txs d) = tx_pool d"
  unfolding updateNonces_def
  by (induction txs arbitrary: d) (simp_all add: updateNonce_def)

lemma updateNonces_nonces:
  "nonces (updateNonces txs d) a =
     (case lastNonce txs a of Some n \<Rightarrow> Some n | None \<Rightarrow> nonces d a)"
proof (induction txs rule: rev_induct)
  case Nil
  show ?case by (simp add: updateNonces_def lastNonce_def)
next
  case (snoc tx txs)
  have u: "updateNonces (txs @ [tx]) d = updateNonce (sender tx) (nonce tx) (updateNonces txs d)"
    by (simp add: updateNonces_def)
  have l: "lastNonce (txs @ [tx]) a = (if sender tx = a then Some (nonce tx) else lastNonce txs a)"
    by (simp add: lastNonce_def)
  from snoc show ?case
    by (simp add: u l updateNonce_def)
qed

lemma applyBlockAtomically_failure:
  "fst (applyBlockAtomically applyTransaction appendBlock b s) \<noteq> None \<Longrightarrow>
   db (snd (applyBlockAtomically applyTransaction appendBlock b s)) = db s"
  by (auto simp: applyBlockAtomically_def transaction_def split: prod.splits option.splits)

text \<open>
  The rollback reaches the database only. When the block has been appended to the
  in-memory chain and its insertion into the \<open>blocks\<close> table then fails, the database
  is restored and the chain keeps the block.
\<close>

lemma applyBlockAtomically_chain_kept:
  assumes "applyTransactions applyTransaction (transactions b) (height b) s = (None, s1)"
    and "appendBlock b (chain s1) = Inr c"
    and "insert_block b (db s1) = Inl e"
  shows "applyBlockAtomically applyTransaction appendBlock b s = (Some e, s1\<lparr>chain := c, db := db s\<rparr>)"
  using assms by (simp add: applyBlockAtomically_def transaction_def applyBlockBody_def)

text \<open>What the unit leaves when every step succeeds, and that it succeeds only so.\<close>

lemma applyBlockAtomically_success:
  assumes "noneThrows applyTransaction (height b) s (transactions b)"
    and "appendBlock b (chain (payloadsApplied applyTransaction (height b) s (transactions b))) = Inr c"
    and "\<not> list_ex (\<lambda>x. height x = height b \<or> hash x = hash b)
             (blocks (db (payloadsApplied applyTransaction (height b) s (transactions b))))"
  shows "applyBlockAtomically applyTransaction appendBlock b s =
           (None,
            (payloadsApplied applyTransaction (height b) s (transactions b))
              \<lparr>chain := c,
               db := updateNonces (transactions b)
                       (removePending (map tx_hash (transactions b))
                          ((db (payloadsApplied applyTransaction (height b) s (transactions b)))
                             \<lparr>blocks :=
                                blocks (db (payloadsApplied applyTransaction (height b) s (transactions b))) @
                                [b]\<rparr>))\<rparr>)"
  using assms applyTransactions_ok [OF assms(1)]
  by (simp add: applyBlockAtomically_def transaction_def applyBlockBody_def insert_block_def)

lemma applyBlockAtomically_None:
  assumes "fst (applyBlockAtomically applyTransaction appendBlock b s) = None"
  shows "noneThrows applyTransaction (height b) s (transactions b) \<and>
         (\<exists>c. appendBlock b (chain (payloadsApplied applyTransaction (height b) s (transactions b))) = Inr c) \<and>
         \<not> list_ex (\<lambda>x. height x = height b \<or> hash x = hash b)
             (blocks (db (payloadsApplied applyTransaction (height b) s (transactions b))))"
proof -
  let ?t = "applyTransactions applyTransaction (transactions b) (height b) s"
  let ?s1 = "payloadsApplied applyTransaction (height b) s (transactions b)"
  from assms have bo: "fst (applyBlockBody applyTransaction appendBlock b s) = None"
    by (auto simp: applyBlockAtomically_def transaction_def split: prod.splits option.splits)
  then have "fst ?t = None"
    by (cases ?t) (auto simp: applyBlockBody_def split: option.splits)
  then have n: "noneThrows applyTransaction (height b) s (transactions b)"
    by (rule applyTransactions_None)
  then have t: "?t = (None, ?s1)"
    by (rule applyTransactions_ok)
  with bo obtain c where c: "appendBlock b (chain ?s1) = Inr c"
    by (cases "appendBlock b (chain ?s1)") (auto simp: applyBlockBody_def)
  with bo t obtain d1 where "insert_block b (db ?s1) = Inr d1"
    by (cases "insert_block b (db ?s1)") (auto simp: applyBlockBody_def)
  then have "\<not> list_ex (\<lambda>x. height x = height b \<or> hash x = hash b) (blocks (db ?s1))"
    by (auto simp: insert_block_def split: if_splits)
  with n c show ?thesis by blast
qed

text \<open>
  C3. Block application is one unit. When it fails, at whatever statement, the database
  (world state, blocks, pending pool, nonces) is as it was before the attempt. When
  applying one of the block's transactions throws, the ones before it having been
  applied, the unit throws that error and the four tables are as before the attempt. The
  unit succeeds exactly when no transaction throws, the chain takes the block and the
  \<open>blocks\<close> table holds no block of its height or hash. Then every transaction has been
  applied in order, each to what the one before left, the world state is the one they
  leave, the block is appended to the chain and to the \<open>blocks\<close> table, the block's
  transactions are gone from the pending pool, and the nonce table holds for every sender
  of the block the nonce of its last transaction in the block and for any other sender
  what it held.
\<close>

theorem applyBlockAtomically_all_or_nothing:
  "(fst (applyBlockAtomically applyTransaction appendBlock b s) \<noteq> None \<longrightarrow>
      db (snd (applyBlockAtomically applyTransaction appendBlock b s)) = db s) \<and>
   (\<forall>pre tx post e s2.
      transactions b = pre @ tx # post \<and>
      noneThrows applyTransaction (height b) s pre \<and>
      applyTransaction tx (height b) (payloadsApplied applyTransaction (height b) s pre) = (Some e, s2) \<longrightarrow>
        applyBlockAtomically applyTransaction appendBlock b s = (Some e, s2\<lparr>db := db s\<rparr>) \<and>
        world_state (db (snd (applyBlockAtomically applyTransaction appendBlock b s))) = world_state (db s) \<and>
        blocks (db (snd (applyBlockAtomically applyTransaction appendBlock b s))) = blocks (db s) \<and>
        tx_pool (db (snd (applyBlockAtomically applyTransaction appendBlock b s))) = tx_pool (db s) \<and>
        nonces (db (snd (applyBlockAtomically applyTransaction appendBlock b s))) = nonces (db s)) \<and>
   (fst (applyBlockAtomically applyTransaction appendBlock b s) = None \<longleftrightarrow>
      noneThrows applyTransaction (height b) s (transactions b) \<and>
      (\<exists>c. appendBlock b (chain (payloadsApplied applyTransaction (height b) s (transactions b))) = Inr c) \<and>
      \<not> list_ex (\<lambda>x. height x = height b \<or> hash x = hash b)
          (blocks (db (payloadsApplied applyTransaction (height b) s (transactions b))))) \<and>
   (fst (applyBlockAtomically applyTransaction appendBlock b s) = None \<longrightarrow>
      appendBlock b (chain (payloadsApplied applyTransaction (height b) s (transactions b))) =
        Inr (chain (snd (applyBlockAtomically applyTransaction appendBlock b s))) \<and>
      world_state (db (snd (applyBlockAtomically applyTransaction appendBlock b s))) =
        world_state (db (payloadsApplied applyTransaction (height b) s (transactions b))) \<and>
      blocks (db (snd (applyBlockAtomically applyTransaction appendBlock b s))) =
        blocks (db (payloadsApplied applyTransaction (height b) s (transactions b))) @ [b] \<and>
      tx_pool (db (snd (applyBlockAtomically applyTransaction appendBlock b s))) =
        filter (\<lambda>r. pool_hash r \<notin> set (map tx_hash (transactions b)))
          (tx_pool (db (payloadsApplied applyTransaction (height b) s (transactions b)))) \<and>
      (\<forall>a. nonces (db (snd (applyBlockAtomically applyTransaction appendBlock b s))) a =
             (case lastNonce (transactions b) a of
                Some n \<Rightarrow> Some n
              | None \<Rightarrow>
                  nonces (db (payloadsApplied applyTransaction (height b) s (transactions b))) a)))"
proof -
  let ?r = "applyBlockAtomically applyTransaction appendBlock b s"
  let ?s1 = "payloadsApplied applyTransaction (height b) s (transactions b)"
  have fail: "fst ?r \<noteq> None \<longrightarrow> db (snd ?r) = db s"
    by (simp add: applyBlockAtomically_failure)
  have thrown: "?r = (Some e, s2\<lparr>db := db s\<rparr>) \<and>
        world_state (db (snd ?r)) = world_state (db s) \<and>
        blocks (db (snd ?r)) = blocks (db s) \<and>
        tx_pool (db (snd ?r)) = tx_pool (db s) \<and>
        nonces (db (snd ?r)) = nonces (db s)"
    if h: "transactions b = pre @ tx # post \<and>
      noneThrows applyTransaction (height b) s pre \<and>
      applyTransaction tx (height b) (payloadsApplied applyTransaction (height b) s pre) = (Some e, s2)"
    for pre tx post e s2
  proof -
    from h have "applyTransactions applyTransaction (pre @ tx # post) (height b) s = (Some e, s2)"
      by (intro applyTransactions_fails) simp_all
    with h have "applyTransactions applyTransaction (transactions b) (height b) s = (Some e, s2)"
      by simp
    then have "?r = (Some e, s2\<lparr>db := db s\<rparr>)"
      by (simp add: applyBlockAtomically_def transaction_def applyBlockBody_def)
    then show ?thesis by simp
  qed
  have iff: "fst ?r = None \<longleftrightarrow>
      noneThrows applyTransaction (height b) s (transactions b) \<and>
      (\<exists>c. appendBlock b (chain ?s1) = Inr c) \<and>
      \<not> list_ex (\<lambda>x. height x = height b \<or> hash x = hash b) (blocks (db ?s1))"
  proof
    assume "fst ?r = None"
    then show "noneThrows applyTransaction (height b) s (transactions b) \<and>
      (\<exists>c. appendBlock b (chain ?s1) = Inr c) \<and>
      \<not> list_ex (\<lambda>x. height x = height b \<or> hash x = hash b) (blocks (db ?s1))"
      by (rule applyBlockAtomically_None)
  next
    assume "noneThrows applyTransaction (height b) s (transactions b) \<and>
      (\<exists>c. appendBlock b (chain ?s1) = Inr c) \<and>
      \<not> list_ex (\<lambda>x. height x = height b \<or> hash x = hash b) (blocks (db ?s1))"
    then obtain c where "noneThrows applyTransaction (height b) s (transactions b)"
      "appendBlock b (chain ?s1) = Inr c"
      "\<not> list_ex (\<lambda>x. height x = height b \<or> hash x = hash b) (blocks (db ?s1))"
      by blast
    then show "fst ?r = None"
      by (simp add: applyBlockAtomically_success)
  qed
  have ok: "appendBlock b (chain ?s1) = Inr (chain (snd ?r)) \<and>
      world_state (db (snd ?r)) = world_state (db ?s1) \<and>
      blocks (db (snd ?r)) = blocks (db ?s1) @ [b] \<and>
      tx_pool (db (snd ?r)) =
        filter (\<lambda>r. pool_hash r \<notin> set (map tx_hash (transactions b))) (tx_pool (db ?s1)) \<and>
      (\<forall>a. nonces (db (snd ?r)) a =
             (case lastNonce (transactions b) a of Some n \<Rightarrow> Some n | None \<Rightarrow> nonces (db ?s1) a))"
    if "fst ?r = None"
  proof -
    from that iff obtain c where n: "noneThrows applyTransaction (height b) s (transactions b)"
      and c: "appendBlock b (chain ?s1) = Inr c"
      and i: "\<not> list_ex (\<lambda>x. height x = height b \<or> hash x = hash b) (blocks (db ?s1))"
      by blast
    note r = applyBlockAtomically_success
      [where applyTransaction = applyTransaction and appendBlock = appendBlock and b = b and s = s,
        OF n c i]
    show ?thesis
      unfolding r using c
      by (simp add: updateNonces_frame updateNonces_nonces removePending_def split: option.split)
  qed
  from fail thrown iff ok show ?thesis
    by blast
qed

theorem applyBlockAtomically_all_or_nothing_witness:
  "noneThrows sampleApplyTransaction 1 sampleNode [sampleTx ''t1'' ''k1'' 0] \<and>
   fst (applyBlockAtomically sampleApplyTransaction sampleAppendBlock
          (sampleBlockOf [sampleTx ''t1'' ''k1'' 0, sampleTx ''t2'' [] 1]) sampleNode) =
     Some (Error ''empty payload'') \<and>
   db (snd (applyBlockAtomically sampleApplyTransaction sampleAppendBlock
          (sampleBlockOf [sampleTx ''t1'' ''k1'' 0, sampleTx ''t2'' [] 1]) sampleNode)) = db sampleNode \<and>
   fst (applyBlockAtomically sampleApplyTransaction sampleAppendBlock
          (sampleBlockOf [sampleTx ''t1'' ''k1'' 0, sampleTx ''t2'' ''k2'' 1]) sampleNode) = None \<and>
   map key (world_state (db (snd (applyBlockAtomically sampleApplyTransaction sampleAppendBlock
          (sampleBlockOf [sampleTx ''t1'' ''k1'' 0, sampleTx ''t2'' ''k2'' 1]) sampleNode)))) =
     [''k1'', ''k2''] \<and>
   tx_pool (db (snd (applyBlockAtomically sampleApplyTransaction sampleAppendBlock
          (sampleBlockOf [sampleTx ''t1'' ''k1'' 0, sampleTx ''t2'' ''k2'' 1]) sampleNode))) = [] \<and>
   blocks (db (snd (applyBlockAtomically sampleApplyTransaction sampleAppendBlock
          (sampleBlockOf [sampleTx ''t1'' ''k1'' 0, sampleTx ''t2'' ''k2'' 1]) sampleNode))) =
     [sampleBlockOf [sampleTx ''t1'' ''k1'' 0, sampleTx ''t2'' ''k2'' 1]] \<and>
   nonces (db (snd (applyBlockAtomically sampleApplyTransaction sampleAppendBlock
          (sampleBlockOf [sampleTx ''t1'' ''k1'' 0, sampleTx ''t2'' ''k2'' 1]) sampleNode))) ''alice'' =
     Some 1"
proof -
  let ?t1 = "sampleTx ''t1'' ''k1'' 0"
  let ?bad = "sampleBlockOf [?t1, sampleTx ''t2'' [] 1]"
  let ?good = "sampleBlockOf [?t1, sampleTx ''t2'' ''k2'' 1]"
  let ?rb = "applyBlockAtomically sampleApplyTransaction sampleAppendBlock ?bad sampleNode"
  let ?rg = "applyBlockAtomically sampleApplyTransaction sampleAppendBlock ?good sampleNode"
  let ?s1 = "payloadsApplied sampleApplyTransaction 1 sampleNode [?t1, sampleTx ''t2'' ''k2'' 1]"
  have hb: "height ?bad = 1" "transactions ?bad = [?t1] @ sampleTx ''t2'' [] 1 # []"
    and hg: "height ?good = 1" "transactions ?good = [?t1, sampleTx ''t2'' ''k2'' 1]"
    by (simp_all add: sampleBlockOf_def sampleBlock_def)
  have n1: "noneThrows sampleApplyTransaction 1 sampleNode [?t1]"
    by (simp add: noneThrows_Cons noneThrows_def sampleApplyTransaction_def sampleTx_def)
  have t2: "sampleApplyTransaction (sampleTx ''t2'' [] 1) 1
              (payloadsApplied sampleApplyTransaction 1 sampleNode [?t1]) =
            (Some (Error ''empty payload''), payloadsApplied sampleApplyTransaction 1 sampleNode [?t1])"
    by (simp add: sampleApplyTransaction_def sampleTx_def)
  have n2: "noneThrows sampleApplyTransaction 1 sampleNode [?t1, sampleTx ''t2'' ''k2'' 1]"
    by (simp add: noneThrows_Cons noneThrows_def sampleApplyTransaction_def sampleTx_def)
  have w: "map key (world_state (db ?s1)) = [''k1'', ''k2'']"
    and p: "tx_pool (db ?s1) = tx_pool (db sampleNode)"
    and bl: "blocks (db ?s1) = []"
    and nn: "nonces (db ?s1) = Map.empty"
    by (simp_all add: payloadsApplied_def sampleApplyTransaction_def sampleTx_def sampleNode_def)
  have ap: "sampleAppendBlock ?good (chain ?s1) = Inr (chain ?s1 @ [?good])"
    by (simp add: sampleAppendBlock_def)
  have f: "filter (\<lambda>r. pool_hash r \<notin> set (map tx_hash [?t1, sampleTx ''t2'' ''k2'' 1]))
             (tx_pool (db sampleNode)) = []"
    by (simp add: sampleTx_def sampleNode_def)
  have l: "lastNonce [?t1, sampleTx ''t2'' ''k2'' 1] ''alice'' = Some 1"
    by (simp add: lastNonce_def sampleTx_def)
  note bad = applyBlockAtomically_all_or_nothing [of sampleApplyTransaction sampleAppendBlock ?bad sampleNode]
  note good = applyBlockAtomically_all_or_nothing [of sampleApplyTransaction sampleAppendBlock ?good sampleNode]
  from bad hb n1 t2
  have b1: "?rb = (Some (Error ''empty payload''),
                   (payloadsApplied sampleApplyTransaction 1 sampleNode [?t1])\<lparr>db := db sampleNode\<rparr>)"
    by (simp only:)
  from good hg n2 ap bl have g1: "fst ?rg = None"
    by (simp add: list_ex_iff)
  note g4 = good [THEN conjunct2, THEN conjunct2, THEN conjunct2, rule_format, OF g1, unfolded hg]
  from g4 have "world_state (db (snd ?rg)) = world_state (db ?s1)"
    and "blocks (db (snd ?rg)) = blocks (db ?s1) @ [?good]"
    and "tx_pool (db (snd ?rg)) =
           filter (\<lambda>r. pool_hash r \<notin> set (map tx_hash [?t1, sampleTx ''t2'' ''k2'' 1])) (tx_pool (db ?s1))"
    and "nonces (db (snd ?rg)) ''alice'' =
           (case lastNonce [?t1, sampleTx ''t2'' ''k2'' 1] ''alice'' of
              Some n \<Rightarrow> Some n | None \<Rightarrow> nonces (db ?s1) ''alice'')"
    by blast+
  with w p bl f l have "map key (world_state (db (snd ?rg))) = [''k1'', ''k2'']"
    "blocks (db (snd ?rg)) = [?good]" "tx_pool (db (snd ?rg)) = []"
    "nonces (db (snd ?rg)) ''alice'' = Some 1"
    by simp_all
  with n1 b1 g1 show ?thesis
    by simp
qed

section \<open>Peer mesh\<close>

subsection \<open>Peers and the peer map\<close>

datatype PeerStatus = Connecting | Connected | Disconnected

text \<open>
  A \<open>Peer\<close> with the properties of the peer table; \<open>closed\<close> tells whether \<open>close()\<close>
  has been called on its connection.
\<close>

record Peer =
  peer_nodeId :: string
  peer_publicKey :: string
  peer_orgId :: string
  address :: string
  status :: PeerStatus
  chainHeight :: nat
  closed :: bool

record HandshakePayload =
  hs_nodeId :: string
  hs_publicKey :: string
  hs_orgId :: string
  hs_chainHeight :: nat
  listenPort :: nat
  listenAddress :: "string option"

text \<open>
  The peer map is a \<open>Map\<close> from node id to peer, here the list of its entries in
  insertion order. \<open>has\<close> and \<open>mapSet\<close> are \<open>Map.prototype.has\<close> and
  \<open>Map.prototype.set\<close>: setting a key that is present replaces its value in place,
  setting a new key appends an entry.
\<close>

definition has :: "(string \<times> Peer) list \<Rightarrow> string \<Rightarrow> bool" where
  "has m k \<longleftrightarrow> k \<in> set (map fst m)"

fun mapSet :: "(string \<times> Peer) list \<Rightarrow> string \<Rightarrow> Peer \<Rightarrow> (string \<times> Peer) list" where
  "mapSet [] k v = [(k, v)]"
| "mapSet ((k1, v1) # m) k v = (if k1 = k then (k, v) # m else (k1, v1) # mapSet m k v)"

record PeerManager =
  opts_nodeId :: string
  peers :: "(string \<times> Peer) list"

subsection \<open>Handshake\<close>

text \<open>
  Modelled from the spec: of the handshake handler the sources show the two rejections
  only, and these are taken as they stand. The rest follows the description of a
  successful handshake: the peer, with the identity and chain height of the handshake
  payload and the status \<open>connected\<close>, is added to the peer map under the payload's
  node id. The acknowledgement, the peer list sent to the new peer and the
  \<open>peer:connected\<close> event are left out. The result is the manager and the peer object
  of the connection after the call.
\<close>

definition handleHandshake :: "PeerManager \<Rightarrow> HandshakePayload \<Rightarrow> Peer \<Rightarrow> PeerManager \<times> Peer" where
  "handleHandshake pm hello peer =
     (if hs_nodeId hello = opts_nodeId pm then (pm, peer\<lparr>closed := True\<rparr>)
      else if has (peers pm) (hs_nodeId hello) then (pm, peer\<lparr>closed := True\<rparr>)
      else
        let peer1 = peer\<lparr>peer_nodeId := hs_nodeId hello, peer_publicKey := hs_publicKey hello,
                         peer_orgId := hs_orgId hello, chainHeight := hs_chainHeight hello,
                         status := Connected\<rparr>
        in (pm\<lparr>peers := mapSet (peers pm) (hs_nodeId hello) peer1\<rparr>, peer1))"

text \<open>A run of handshakes, each on its own connection, processed one after the other.\<close>

definition handleHandshakes :: "PeerManager \<Rightarrow> (HandshakePayload \<times> Peer) list \<Rightarrow> PeerManager" where
  "handleHandshakes pm hs = foldl (\<lambda>m (hello, peer). fst (handleHandshake m hello peer)) pm hs"

text \<open>
  The invariant of the peer map: no entry for the local node's own id, and no two entries
  for one node id.
\<close>

definition peersInvariant :: "PeerManager \<Rightarrow> bool" where
  "peersInvariant pm \<longleftrightarrow> \<not> has (peers pm) (opts_nodeId pm) \<and> distinct (map fst (peers pm))"

definition samplePeer :: "string \<Rightarrow> nat \<Rightarrow> Peer" where
  "samplePeer nid h =
     \<lparr>peer_nodeId = nid, peer_publicKey = ''pk'', peer_orgId = ''org'', address = ''ws://host:9000'',
      status = Connected, chainHeight = h, closed = False\<rparr>"

definition samplePayload :: "string \<Rightarrow> HandshakePayload" where
  "samplePayload nid =
     \<lparr>hs_nodeId = nid, hs_publicKey = ''pk'', hs_orgId = ''org'', hs_chainHeight = 7,
      listenPort = 9000, listenAddress = None\<rparr>"

definition sampleManager :: PeerManager where
  "sampleManager = \<lparr>opts_nodeId = ''n1'', peers = [(''n2'', samplePeer ''n2'' 5)]\<rparr>"

subsection \<open>Block synchronization\<close>












subsection \<open>Properties of the handshake\<close>

lemma has_mapSet: "has (mapSet m k v) k' \<longleftrightarrow> k' = k \<or> has m k'"
  by (induction m k v rule: mapSet.induct) (auto simp: has_def)

lemma keys_mapSet_new: "\<not> has m k \<Longrightarrow> map fst (mapSet m k v) = map fst m @ [k]"
  by (induction m k v rule: mapSet.induct) (auto simp: has_def)

lemma handleHandshake_invariant:
  assumes "peersInvariant pm"
  shows "peersInvariant (fst (handleHandshake pm hello peer))"
proof (cases "hs_nodeId hello = opts_nodeId pm \<or> has (peers pm) (hs_nodeId hello)")
  case True
  with assms show ?thesis
    by (auto simp: handleHandshake_def)
next
  case False
  then have new: "\<not> has (peers pm) (hs_nodeId hello)" and other: "hs_nodeId hello \<noteq> opts_nodeId pm"
    by simp_all
  from assms have d: "distinct (map fst (peers pm))" and s: "\<not> has (peers pm) (opts_nodeId pm)"
    by (simp_all add: peersInvariant_def)
  from new d have "distinct (map fst (mapSet (peers pm) (hs_nodeId hello) p1))" for p1
    by (simp add: keys_mapSet_new) (simp add: has_def)
  moreover from s other have "\<not> has (mapSet (peers pm) (hs_nodeId hello) p1) (opts_nodeId pm)" for p1
    by (simp add: has_mapSet)
  ultimately show ?thesis
    using False by (simp add: handleHandshake_def Let_def peersInvariant_def)
qed

lemma handleHandshakes_invariant:
  "peersInvariant pm \<Longrightarrow> peersInvariant (handleHandshakes pm hs)"
  unfolding handleHandshakes_def
  by (induction hs arbitrary: pm) (auto simp: handleHandshake_invariant)

text \<open>
  C9. A handshake that claims the local node's own id, or an id that already has an entry
  in the peer map, closes the connection and leaves the peer map as it is. So the
  invariant (no entry for the local id, no two entries for one id) is kept by every
  handshake, hence by any run of handshakes, and it holds throughout when the map starts
  empty.
\<close>

theorem handshake_rejects_self_and_duplicate:
  "((hs_nodeId hello = opts_nodeId pm \<or> has (peers pm) (hs_nodeId hello)) \<longrightarrow>
      fst (handleHandshake pm hello peer) = pm \<and> closed (snd (handleHandshake pm hello peer))) \<and>
   (peersInvariant pm \<longrightarrow>
      peersInvariant (fst (handleHandshake pm hello peer)) \<and>
      peersInvariant (handleHandshakes pm hs)) \<and>
   peersInvariant (handleHandshakes (pm\<lparr>peers := []\<rparr>) hs)"
proof (intro conjI impI)
  assume "hs_nodeId hello = opts_nodeId pm \<or> has (peers pm) (hs_nodeId hello)"
  then show "fst (handleHandshake pm hello peer) = pm"
    and "closed (snd (handleHandshake pm hello peer))"
    by (auto simp: handleHandshake_def)
next
  assume "peersInvariant pm"
  then show "peersInvariant (fst (handleHandshake pm hello peer))"
    and "peersInvariant (handleHandshakes pm hs)"
    by (simp_all add: handleHandshake_invariant handleHandshakes_invariant)
next
  have "peersInvariant (pm\<lparr>peers := []\<rparr>)"
    by (simp add: peersInvariant_def has_def)
  then show "peersInvariant (handleHandshakes (pm\<lparr>peers := []\<rparr>) hs)"
    by (rule handleHandshakes_invariant)
qed

theorem handshake_rejects_self_and_duplicate_witness:
  "hs_nodeId (samplePayload ''n1'') = opts_nodeId sampleManager \<and>
   has (peers sampleManager) (hs_nodeId (samplePayload ''n2'')) \<and>
   peersInvariant sampleManager \<and>
   fst (handleHandshake sampleManager (samplePayload ''n1'') (samplePeer [] 0)) = sampleManager \<and>
   closed (snd (handleHandshake sampleManager (samplePayload ''n1'') (samplePeer [] 0))) \<and>
   fst (handleHandshake sampleManager (samplePayload ''n2'') (samplePeer [] 0)) = sampleManager \<and>
   closed (snd (handleHandshake sampleManager (samplePayload ''n2'') (samplePeer [] 0))) \<and>
   peersInvariant (fst (handleHandshake sampleManager (samplePayload ''n3'') (samplePeer [] 0))) \<and>
   map fst (peers (fst (handleHandshake sampleManager (samplePayload ''n3'') (samplePeer [] 0)))) =
     [''n2'', ''n3'']"
proof -
  have a: "hs_nodeId (samplePayload ''n1'') = opts_nodeId sampleManager"
    by (simp add: samplePayload_def sampleManager_def)
  have b: "has (peers sampleManager) (hs_nodeId (samplePayload ''n2''))"
    by (simp add: samplePayload_def sampleManager_def has_def)
  have i: "peersInvariant sampleManager"
    by (simp add: peersInvariant_def sampleManager_def has_def)
  have k: "map fst (peers (fst (handleHandshake sampleManager (samplePayload ''n3'') (samplePeer [] 0)))) =
     [''n2'', ''n3'']"
    by (simp add: handleHandshake_def samplePayload_def sampleManager_def has_def Let_def)
  note self = handshake_rejects_self_and_duplicate
    [of "samplePayload ''n1''" sampleManager "samplePeer [] 0" "[]"]
  note dup = handshake_rejects_self_and_duplicate
    [of "samplePayload ''n2''" sampleManager "samplePeer [] 0" "[]"]
  note new = handshake_rejects_self_and_duplicate
    [of "samplePayload ''n3''" sampleManager "samplePeer [] 0" "[]"]
  from self a dup b new i show ?thesis
    using k by simp
qed

subsection \<open>Properties of block synchronization\<close>












section \<open>Identity\<close>

subsection \<open>Hex strings and bytes\<close>

type_synonym byte = "8 word"

text \<open>
  Modelled from the spec: \<open>toHex\<close> and \<open>fromHex\<close> have no code in the sources. Keys,
  salts and ciphertexts are hex-encoded byte strings: \<open>toHex\<close> writes two lower-case
  digits per byte; \<open>fromHex\<close> reads digits of either case and throws (\<open>None\<close>) on an
  odd length or on a character that is no hex digit.
\<close>

definition hexDigit :: "nat \<Rightarrow> char" where
  "hexDigit n = ''0123456789abcdef'' ! n"

definition toHex :: "byte list \<Rightarrow> string" where
  "toHex bs = concat (map (\<lambda>b. [hexDigit (unat b div 16), hexDigit (unat b mod 16)]) bs)"

definition hexValue :: "char \<Rightarrow> nat option" where
  "hexValue c =
     map_of (zip ''0123456789abcdefABCDEF''
                 [0, 1, 2, 3, 4, 5, 6, 7, 8, 9, 10, 11, 12, 13, 14, 15, 10, 11, 12, 13, 14, 15]) c"

fun fromHex :: "string \<Rightarrow> byte list option" where
  "fromHex [] = Some []"
| "fromHex [c] = None"
| "fromHex (c1 # c2 # cs) =
     (case hexValue c1 of
        None \<Rightarrow> None
      | Some hi \<Rightarrow>
          (case hexValue c2 of
             None \<Rightarrow> None
           | Some lo \<Rightarrow>
               (case fromHex cs of
                  None \<Rightarrow> None
                | Some bs \<Rightarrow> Some (of_nat (16 * hi + lo) # bs))))"

text \<open>\<open>new TextEncoder().encode\<close> on ASCII text: one byte per character.\<close>

definition encode :: "string \<Rightarrow> byte list" where
  "encode s = map (\<lambda>c. of_nat (of_char c)) s"

subsection \<open>Keystore\<close>

record KeyPair =
  publicKey :: string
  privateKey :: string

record KeystoreFile =
  ks_version :: nat
  ks_publicKey :: string
  encryptedPrivateKey :: string
  salt :: string
  orgId :: string
  name :: string

text \<open>
  \<open>deriveKey\<close>: the hash of the password followed by the salt in hex, hashed 10000
  times more. The hash function \<open>sha256\<close> comes from a library and is a parameter.
\<close>

definition deriveKey :: "(byte list \<Rightarrow> byte list) \<Rightarrow> string \<Rightarrow> byte list \<Rightarrow> byte list" where
  "deriveKey sha256 password saltBytes =
     (sha256 ^^ 10000) (sha256 (encode (password @ toHex saltBytes)))"

text \<open>
  The loop shared by encryption and decryption: byte \<open>i\<close> is combined by exclusive or
  with byte \<open>i % derived.length\<close> of the derived key. For an empty key the index is
  \<open>NaN\<close>, the key byte \<open>undefined\<close>, and the byte stays as it is.
\<close>

definition keyByte :: "byte list \<Rightarrow> nat \<Rightarrow> byte" where
  "keyByte derived i = (if derived = [] then 0 else derived ! (i mod length derived))"

definition xorBytes :: "byte list \<Rightarrow> byte list \<Rightarrow> byte list" where
  "xorBytes derived bytes = map (\<lambda>i. (bytes ! i) XOR keyByte derived i) [0 ..< length bytes]"

text \<open>
  \<open>encryptKeystore\<close>: the 16 random salt bytes are the argument \<open>saltBytes\<close>. The
  function derives the key, decodes the private key and computes the ciphertext
  \<open>encrypted\<close>. Its return statement then reads the identifiers \<open>publicKey\<close> and
  \<open>encryptedPrivateKey\<close>, which nothing binds (the public key is \<open>keyPair.publicKey\<close>, the
  ciphertext is in \<open>encrypted\<close>): reading the first of them throws a \<open>ReferenceError\<close>,
  and no keystore is returned.
\<close>

definition encryptKeystore ::
  "(byte list \<Rightarrow> byte list) \<Rightarrow> byte list \<Rightarrow> KeyPair \<Rightarrow> string \<Rightarrow> string \<Rightarrow> string \<Rightarrow> error + KeystoreFile" where
  "encryptKeystore sha256 saltBytes keyPair password org nm =
     (let derived = deriveKey sha256 password saltBytes
      in case fromHex (privateKey keyPair) of
           None \<Rightarrow> Inl (Error ''invalid hex string'')
         | Some privBytes \<Rightarrow>
             (let encrypted = xorBytes derived privBytes
              in Inl (ReferenceError ''publicKey is not defined'')))"

definition decryptKeystore ::
  "(byte list \<Rightarrow> byte list) \<Rightarrow> KeystoreFile \<Rightarrow> string \<Rightarrow> error + KeyPair" where
  "decryptKeystore sha256 keystore password =
     (case fromHex (salt keystore) of
        None \<Rightarrow> Inl (Error ''invalid hex string'')
      | Some saltBytes \<Rightarrow>
          (let derived = deriveKey sha256 password saltBytes
           in case fromHex (encryptedPrivateKey keystore) of
                None \<Rightarrow> Inl (Error ''invalid hex string'')
              | Some encrypted \<Rightarrow>
                  Inr \<lparr>publicKey = ks_publicKey keystore,
                       privateKey = toHex (xorBytes derived encrypted)\<rparr>))"

text \<open>
  Modelled from the spec: the keystore of the documented file format for a key pair, a
  ciphertext and a salt, which is what \<open>decryptKeystore\<close> reads: the public key as it
  is, the ciphertext and the salt in hex.
\<close>

definition keystoreOf :: "KeyPair \<Rightarrow> byte list \<Rightarrow> byte list \<Rightarrow> string \<Rightarrow> string \<Rightarrow> KeystoreFile" where
  "keystoreOf keyPair encrypted saltBytes org nm =
     \<lparr>ks_version = 1, ks_publicKey = publicKey keyPair, encryptedPrivateKey = toHex encrypted,
      salt = toHex saltBytes, orgId = org, name = nm\<rparr>"

text \<open>\<open>decryptKeystore(encryptKeystore(keyPair, password, orgId, name), password)\<close>.\<close>

definition roundTrip ::
  "(byte list \<Rightarrow> byte list) \<Rightarrow> byte list \<Rightarrow> KeyPair \<Rightarrow> string \<Rightarrow> string \<Rightarrow> string \<Rightarrow> error + KeyPair" where
  "roundTrip sha256 saltBytes keyPair password org nm =
     (case encryptKeystore sha256 saltBytes keyPair password org nm of
        Inl e \<Rightarrow> Inl e
      | Inr keystore \<Rightarrow> decryptKeystore sha256 keystore password)"

text \<open>A stand-in for the hash function, for evaluating samples.\<close>

definition toySha :: "byte list \<Rightarrow> byte list" where
  "toySha bs = rev bs"

text \<open>A key pair with a sample public key.\<close>

definition sampleKeyPair :: "string \<Rightarrow> KeyPair" where
  "sampleKeyPair priv =
     \<lparr>publicKey = ''3a7f1b2c9e4d8f053a7f1b2c9e4d8f053a7f1b2c9e4d8f053a7f1b2c9e4d8f05'',
      privateKey = priv\<rparr>"

subsection \<open>Properties of the keystore\<close>

lemma hexValue_hexDigit: "n < 16 \<Longrightarrow> hexValue (hexDigit n) = Some n"
proof -
  assume small: "n < 16"
  have "list_all (\<lambda>k. hexValue (hexDigit k) = Some k) [0 ..< 16]"
    by code_simp
  then have "\<forall>k \<in> set [0 ..< 16]. hexValue (hexDigit k) = Some k"
    by (simp only: list_all_iff)
  with small show ?thesis
    by simp
qed

lemma fromHex_toHex: "fromHex (toHex bs) = Some bs"
proof (induction bs)
  case Nil
  then show ?case by (simp add: toHex_def)
next
  case (Cons b bs)
  have "unat b < 2 ^ LENGTH(8)"
    by (rule unsigned_less)
  then have "unat b < 256"
    by simp
  then have "unat b div 16 < 16"
    by arith
  then show ?case
    using Cons by (simp add: toHex_def hexValue_hexDigit)
qed

lemma xorBytes_length [simp]: "length (xorBytes derived bytes) = length bytes"
  by (simp add: xorBytes_def)

lemma xorBytes_involution: "xorBytes derived (xorBytes derived bytes) = bytes"
proof (rule nth_equalityI)
  show "length (xorBytes derived (xorBytes derived bytes)) = length bytes"
    by simp
next
  fix i
  assume "i < length (xorBytes derived (xorBytes derived bytes))"
  then have i: "i < length bytes" by simp
  then show "xorBytes derived (xorBytes derived bytes) ! i = bytes ! i"
    by (simp add: xorBytes_def xor.assoc)
qed

text \<open>
  \<open>decryptKeystore\<close> by itself undoes the exclusive or: from the keystore of the
  documented format that holds the ciphertext \<open>encryptKeystore\<close> computes, it returns
  the public key and the private key's bytes in hex.
\<close>

lemma decryptKeystore_keystoreOf:
  "decryptKeystore sha256
     (keystoreOf keyPair (xorBytes (deriveKey sha256 password saltBytes) privBytes) saltBytes org nm)
     password =
   Inr \<lparr>publicKey = publicKey keyPair, privateKey = toHex privBytes\<rparr>"
  by (simp add: decryptKeystore_def keystoreOf_def Let_def fromHex_toHex xorBytes_involution)

text \<open>
  C10. The round trip returns no key pair. Whatever the key pair, the password, the salt,
  the organization and the name, and whatever the hash function is, \<open>encryptKeystore\<close>
  throws: the error of \<open>fromHex\<close> when the private key is no hex string, and otherwise
  the \<open>ReferenceError\<close> of its return statement. So \<open>decryptKeystore\<close> is never reached,
  and the round trip ends with the same error.
\<close>

theorem encryptKeystore_throws:
  "encryptKeystore sha256 saltBytes keyPair password org nm =
     (case fromHex (privateKey keyPair) of
        None \<Rightarrow> Inl (Error ''invalid hex string'')
      | Some privBytes \<Rightarrow> Inl (ReferenceError ''publicKey is not defined'')) \<and>
   roundTrip sha256 saltBytes keyPair password org nm =
     (case fromHex (privateKey keyPair) of
        None \<Rightarrow> Inl (Error ''invalid hex string'')
      | Some privBytes \<Rightarrow> Inl (ReferenceError ''publicKey is not defined'')) \<and>
   encryptKeystore sha256 saltBytes keyPair password org nm \<noteq> Inr keystore \<and>
   roundTrip sha256 saltBytes keyPair password org nm \<noteq> Inr returned"
  by (simp add: roundTrip_def encryptKeystore_def Let_def split: option.split)

theorem encryptKeystore_throws_witness:
  "fromHex (privateKey (sampleKeyPair ''00ff10ab00ff10ab00ff10ab00ff10ab00ff10ab00ff10ab00ff10ab00ff10ab'')) =
     Some (concat (replicate 8 [0x00, 0xFF, 0x10, 0xAB])) \<and>
   encryptKeystore toySha (replicate 16 0x5A)
       (sampleKeyPair ''00ff10ab00ff10ab00ff10ab00ff10ab00ff10ab00ff10ab00ff10ab00ff10ab'')
       ''secret'' ''my-org'' ''node-1'' =
     Inl (ReferenceError ''publicKey is not defined'') \<and>
   roundTrip toySha (replicate 16 0x5A)
       (sampleKeyPair ''00ff10ab00ff10ab00ff10ab00ff10ab00ff10ab00ff10ab00ff10ab00ff10ab'')
       ''secret'' ''my-org'' ''node-1'' =
     Inl (ReferenceError ''publicKey is not defined'')"
proof -
  let ?kp = "sampleKeyPair ''00ff10ab00ff10ab00ff10ab00ff10ab00ff10ab00ff10ab00ff10ab00ff10ab''"
  have f: "fromHex (privateKey ?kp) = Some (concat (replicate 8 [0x00, 0xFF, 0x10, 0xAB]))"
    by code_simp
  from encryptKeystore_throws [of toySha "replicate 16 0x5A" ?kp "''secret''" "''my-org''" "''node-1''"] f
  show ?thesis
    by simp
qed

end
